theory Spec2Isabelle
  imports Complex_Main
begin

section \<open>Data model (types.ts)\<close>

text \<open>
  JavaScript numbers are modelled as exact reals: every comparison, sum and
  quotient below is the mathematical one. Rounding of IEEE doubles is outside
  the model.
\<close>

record Caption =
  cap_start :: real
  cap_end :: real
  cap_text :: string

datatype HorizontalAlign = AlignLeft | AlignCenter | AlignRight

datatype CaptionEffect = EffectNone | EffectShadow | EffectOutline

datatype FontWeight = WeightNormal | WeightBold

record Position =
  pos_x :: real
  pos_y :: real

record StyleOptions =
  foregroundColor :: string
  foregroundColorOpacity :: real
  backgroundColor :: string
  backgroundOpacity :: real
  fontSize :: real
  maxWidth :: real
  padding :: real
  borderRadius :: real
  position :: Position
  horizontalAlign :: HorizontalAlign
  fontFamily :: string
  fontWeight :: FontWeight
  effect :: CaptionEffect
  shadowColor :: string
  shadowBlur :: real
  shadowOffsetX :: real
  shadowOffsetY :: real
  strokeColor :: string
  strokeWidth :: real

definition DEFAULT_STYLES :: StyleOptions where
  "DEFAULT_STYLES =
     \<lparr> foregroundColor = ''#FFFFFF'', foregroundColorOpacity = 1,
       backgroundColor = ''#000000'', backgroundOpacity = 6 / 10,
       fontSize = 5, maxWidth = 80, padding = 20, borderRadius = 8,
       position = \<lparr> pos_x = 50, pos_y = 90 \<rparr>,
       horizontalAlign = AlignCenter,
       fontFamily = ''Arial, sans-serif'', fontWeight = WeightBold,
       effect = EffectShadow, shadowColor = ''#000000'', shadowBlur = 5,
       shadowOffsetX = 2, shadowOffsetY = 2,
       strokeColor = ''#000000'', strokeWidth = 2 \<rparr>"

record EditorState =
  captions :: "Caption list"
  styles :: StyleOptions

text \<open>
  The two pieces of React state of \<open>VideoEditor\<close> that make up the edit
  history, together with the memoised \<open>sortedCaptions\<close> that the component
  falls back to when \<open>history[historyIndex]\<close> is undefined.
\<close>

record Editor =
  history :: "EditorState list"
  historyIndex :: nat
  sortedCaptions :: "Caption list"

datatype js_error = TypeError

text \<open>\<open>xs[i]\<close> of JavaScript: \<open>undefined\<close> outside the array.\<close>

definition js_nth :: "'a list \<Rightarrow> nat \<Rightarrow> 'a option" where
  "js_nth xs i = (if i < length xs then Some (xs ! i) else None)"

text \<open>\<open>xs[i - 1]\<close> for a natural \<open>i\<close>: index \<open>-1\<close> is \<open>undefined\<close>.\<close>

definition js_nth_pred :: "'a list \<Rightarrow> nat \<Rightarrow> 'a option" where
  "js_nth_pred xs i = (if i = 0 then None else js_nth xs (i - 1))"

section \<open>History manager (VideoEditor.tsx, updateState / undo / redo)\<close>

definition currentState :: "Editor \<Rightarrow> EditorState option" where
  "currentState ed = js_nth (history ed) (historyIndex ed)"

text \<open>
  \<open>const { captions, styles } = currentState || { captions: sortedCaptions, styles: DEFAULT_STYLES }\<close>
\<close>

definition current_captions :: "Editor \<Rightarrow> Caption list" where
  "current_captions ed =
     (case currentState ed of Some s \<Rightarrow> captions s | None \<Rightarrow> sortedCaptions ed)"

definition current_styles :: "Editor \<Rightarrow> StyleOptions" where
  "current_styles ed =
     (case currentState ed of Some s \<Rightarrow> styles s | None \<Rightarrow> DEFAULT_STYLES)"

definition canUndo :: "Editor \<Rightarrow> bool" where
  "canUndo ed = (historyIndex ed > 0)"

definition canRedo :: "Editor \<Rightarrow> bool" where
  "canRedo ed = (int (historyIndex ed) < int (length (history ed)) - 1)"

text \<open>
  \<open>updateState(updater, mergeWithLast)\<close>. The functional update of
  \<open>history\<close> reads \<open>prevHistory[historyIndex]\<close>; when it is undefined the
  history is returned as it was. The update of \<open>historyIndex\<close> is outside
  that guard, as in the source. One call is one event: the next call sees the
  index this one leaves.
\<close>

definition updateState :: "(EditorState \<Rightarrow> EditorState) \<Rightarrow> bool \<Rightarrow> Editor \<Rightarrow> Editor" where
  "updateState updater mergeWithLast ed =
     (let prevHistory = history ed;
          newHistory =
            (case js_nth prevHistory (historyIndex ed) of
               None \<Rightarrow> prevHistory
             | Some stateToUpdate \<Rightarrow>
                 (let newHistoryIndex =
                        (if mergeWithLast then historyIndex ed else historyIndex ed + 1);
                      newState = updater stateToUpdate;
                      historySlice = take newHistoryIndex prevHistory
                  in historySlice @ [newState]))
      in ed\<lparr> history := newHistory,
              historyIndex := (if mergeWithLast then historyIndex ed else historyIndex ed + 1) \<rparr>)"

definition undo :: "Editor \<Rightarrow> Editor" where
  "undo ed = (if canUndo ed then ed\<lparr> historyIndex := historyIndex ed - 1 \<rparr> else ed)"

definition redo :: "Editor \<Rightarrow> Editor" where
  "redo ed = (if canRedo ed then ed\<lparr> historyIndex := historyIndex ed + 1 \<rparr> else ed)"

text \<open>A gesture: a run of merged commits, closed by one commit that is not merged.\<close>

fun merged_commits :: "(EditorState \<Rightarrow> EditorState) list \<Rightarrow> Editor \<Rightarrow> Editor" where
  "merged_commits [] ed = ed"
| "merged_commits (f # fs) ed = merged_commits fs (updateState f True ed)"

definition gesture ::
  "(EditorState \<Rightarrow> EditorState) list \<Rightarrow> (EditorState \<Rightarrow> EditorState) \<Rightarrow> Editor \<Rightarrow> Editor" where
  "gesture fs g ed = updateState g False (merged_commits fs ed)"

text \<open>The invariant of the history: the cursor points at a snapshot.\<close>

definition cursor_valid :: "Editor \<Rightarrow> bool" where
  "cursor_valid ed = (historyIndex ed < length (history ed))"

text \<open>
  The editor as the component creates it, and the states it reaches through
  commits, undo and redo.
\<close>

definition initial_editor :: "Caption list \<Rightarrow> Editor" where
  "initial_editor cs =
     \<lparr> history = [\<lparr> captions = cs, styles = DEFAULT_STYLES \<rparr>], historyIndex = 0,
       sortedCaptions = cs \<rparr>"

inductive reachable :: "Editor \<Rightarrow> bool" where
  reach_init: "reachable (initial_editor cs)"
| reach_update: "reachable ed \<Longrightarrow> reachable (updateState f m ed)"
| reach_undo: "reachable ed \<Longrightarrow> reachable (undo ed)"
| reach_redo: "reachable ed \<Longrightarrow> reachable (redo ed)"

section \<open>Caption edits (VideoEditor.tsx)\<close>

text \<open>\<open>xs.findIndex(p)\<close>: \<open>None\<close> stands for \<open>-1\<close>.\<close>

fun findIndex :: "('a \<Rightarrow> bool) \<Rightarrow> 'a list \<Rightarrow> nat option" where
  "findIndex p [] = None"
| "findIndex p (x # xs) = (if p x then Some 0 else map_option Suc (findIndex p xs))"

text \<open>
  \<open>handleCaptionTimeChange(index, start, end, merge)\<close>: the caption at
  \<open>index\<close>, when there is one, gets the new times.
\<close>

definition captionTimeUpdater :: "nat \<Rightarrow> real \<Rightarrow> real \<Rightarrow> EditorState \<Rightarrow> EditorState" where
  "captionTimeUpdater index s e prev =
     (let newCaptions = captions prev
      in case js_nth newCaptions index of
           Some c \<Rightarrow> prev\<lparr> captions := newCaptions[index := c\<lparr> cap_start := s, cap_end := e \<rparr>] \<rparr>
         | None \<Rightarrow> prev\<lparr> captions := newCaptions \<rparr>)"

definition handleCaptionTimeChange :: "nat \<Rightarrow> real \<Rightarrow> real \<Rightarrow> bool \<Rightarrow> Editor \<Rightarrow> Editor" where
  "handleCaptionTimeChange index s e merge ed =
     updateState (captionTimeUpdater index s e) merge ed"

text \<open>
  \<open>handleSplitCaption(index)\<close>. \<open>videoTime\<close> is
  \<open>videoRef.current?.currentTime\<close>, \<open>None\<close> when there is no video
  element. Reading \<open>caption.start\<close> of a missing caption raises a TypeError.
  The updater reads \<open>newCaptions[index]\<close> from the snapshot the handler has
  just read \<open>captions[index]\<close> from, so its \<open>None\<close> branch is never taken
  from \<open>handleSplitCaption\<close>.
\<close>

definition splitUpdater :: "nat \<Rightarrow> real \<Rightarrow> EditorState \<Rightarrow> EditorState" where
  "splitUpdater index time prev =
     (let newCaptions = captions prev
      in case js_nth newCaptions index of
           None \<Rightarrow> prev
         | Some originalCaption \<Rightarrow>
             (let firstPart = originalCaption\<lparr> cap_end := time \<rparr>;
                  secondPart = originalCaption\<lparr> cap_start := time \<rparr>
              in prev\<lparr> captions :=
                   take index newCaptions @ [firstPart, secondPart]
                     @ drop (index + 1) newCaptions \<rparr>))"

definition handleSplitCaption :: "nat \<Rightarrow> real option \<Rightarrow> Editor \<Rightarrow> js_error + Editor" where
  "handleSplitCaption index videoTime ed =
     (case videoTime of
        None \<Rightarrow> Inr ed
      | Some time \<Rightarrow>
          (case js_nth (current_captions ed) index of
             None \<Rightarrow> Inl TypeError
           | Some caption \<Rightarrow>
               if time \<le> cap_start caption \<or> time \<ge> cap_end caption then Inr ed
               else Inr (updateState (splitUpdater index time) False ed)))"

text \<open>
  \<open>handleAddCaption\<close>. The updater returns the new snapshot and whether it
  raised the alert "Not enough space to add a new caption here."; it is
  passed to \<open>updateState\<close> with \<open>mergeWithLast\<close> left at its default
  \<open>false\<close>. \<open>sort\<close> with a comparator is stable, as \<open>sort_key\<close> is.
\<close>

definition addCaptionUpdater :: "real \<Rightarrow> real \<Rightarrow> EditorState \<Rightarrow> EditorState \<times> bool" where
  "addCaptionUpdater time videoDuration prev =
     (let newCaption =
            \<lparr> cap_start = time, cap_end = min (time + 2) videoDuration,
              cap_text = ''New Caption'' \<rparr>;
          newCaptions = sort_key cap_start (captions prev)
      in case findIndex (\<lambda>c. cap_start c > time) newCaptions of
           None \<Rightarrow>
             (let lastCaption = js_nth_pred newCaptions (length newCaptions);
                  newCaption1 =
                    (case lastCaption of
                       Some l \<Rightarrow>
                         if cap_start newCaption < cap_end l
                         then newCaption\<lparr> cap_start := cap_end l \<rparr> else newCaption
                     | None \<Rightarrow> newCaption)
              in if cap_end newCaption1 - cap_start newCaption1 < 1 / 10 then (prev, True)
                 else (prev\<lparr> captions := newCaptions @ [newCaption1] \<rparr>, False))
         | Some insertIndex \<Rightarrow>
             (let prevCaption = js_nth_pred newCaptions insertIndex;
                  newCaption1 =
                    (case prevCaption of
                       Some p \<Rightarrow>
                         if cap_start newCaption < cap_end p
                         then newCaption\<lparr> cap_start := cap_end p \<rparr> else newCaption
                     | None \<Rightarrow> newCaption);
                  nextCaption = js_nth newCaptions insertIndex;
                  newCaption2 =
                    (case nextCaption of
                       Some n \<Rightarrow>
                         if cap_end newCaption1 > cap_start n
                         then newCaption1\<lparr> cap_end := cap_start n \<rparr> else newCaption1
                     | None \<Rightarrow> newCaption1)
              in if cap_end newCaption2 - cap_start newCaption2 < 1 / 10 then (prev, True)
                 else (prev\<lparr> captions :=
                         take insertIndex newCaptions @ [newCaption2]
                           @ drop insertIndex newCaptions \<rparr>, False)))"

text \<open>
  The handler returns the editor after the commit and whether the alert was
  shown (the updater runs only when \<open>prevHistory[historyIndex]\<close> exists).
\<close>

definition handleAddCaption :: "real option \<Rightarrow> real \<Rightarrow> Editor \<Rightarrow> Editor \<times> bool" where
  "handleAddCaption videoTime videoDuration ed =
     (let time = (case videoTime of Some t \<Rightarrow> t | None \<Rightarrow> 0)
      in (updateState (\<lambda>prev. fst (addCaptionUpdater time videoDuration prev)) False ed,
          (case currentState ed of
             Some s \<Rightarrow> snd (addCaptionUpdater time videoDuration s)
           | None \<Rightarrow> False)))"

section \<open>Timeline (Timeline.tsx): geometry, drag, wheel zoom\<close>

datatype DragMode = Move | ResizeStart | ResizeEnd

record DragState =
  ds_index :: nat
  ds_mode :: DragMode
  ds_startX :: real
  originalStart :: real
  originalEnd :: real

definition PIXELS_PER_SECOND_BASE :: real where
  "PIXELS_PER_SECOND_BASE = 150"

definition pixelsPerSecond :: "real \<Rightarrow> real" where
  "pixelsPerSecond zoomLevel = PIXELS_PER_SECOND_BASE * zoomLevel"

definition SNAP_THRESHOLD_PX :: real where
  "SNAP_THRESHOLD_PX = 6"

text \<open>
  \<open>handleMouseMove\<close> of the drag effect. The result is the call
  \<open>onCaptionTimeChange(index, newStart, newEnd, true)\<close> it makes, \<open>None\<close>
  when it returns early. The successive assignments to \<open>newStart\<close> and
  \<open>newEnd\<close> are numbered.
\<close>

definition handleMouseMove ::
  "DragState option \<Rightarrow> real \<Rightarrow> real \<Rightarrow> real \<Rightarrow> Caption list \<Rightarrow> real
     \<Rightarrow> (nat \<times> real \<times> real) option" where
  "handleMouseMove dragState duration pps currentTime caps clientX =
     (case dragState of
        None \<Rightarrow> None
      | Some ds \<Rightarrow>
          if duration = 0 \<or> pps = 0 then None
          else
            (let deltaX = clientX - ds_startX ds;
                 deltaTime = deltaX / pps;
                 newStart0 = originalStart ds;
                 newEnd0 = originalEnd ds;
                 (newStart1, newEnd1) =
                   (case ds_mode ds of
                      Move \<Rightarrow>
                        (let s = newStart0 + deltaTime; e = newEnd0 + deltaTime
                         in if \<bar>s * pps - currentTime * pps\<bar> < SNAP_THRESHOLD_PX
                            then (let snapDelta = currentTime - s
                                  in (s + snapDelta, e + snapDelta))
                            else if \<bar>e * pps - currentTime * pps\<bar> < SNAP_THRESHOLD_PX
                            then (let snapDelta = currentTime - e
                                  in (s + snapDelta, e + snapDelta))
                            else (s, e))
                    | ResizeStart \<Rightarrow>
                        (let s = newStart0 + deltaTime
                         in if \<bar>s * pps - currentTime * pps\<bar> < SNAP_THRESHOLD_PX
                            then (currentTime, newEnd0) else (s, newEnd0))
                    | ResizeEnd \<Rightarrow>
                        (let e = newEnd0 + deltaTime
                         in if \<bar>e * pps - currentTime * pps\<bar> < SNAP_THRESHOLD_PX
                            then (newStart0, currentTime) else (newStart0, e)));
                 newStart2 = max 0 newStart1;
                 newEnd2 = min duration newEnd1;
                 prevCaption = js_nth_pred caps (ds_index ds);
                 newStart3 =
                   (case prevCaption of Some p \<Rightarrow> max newStart2 (cap_end p) | None \<Rightarrow> newStart2);
                 nextCaption = js_nth caps (ds_index ds + 1);
                 newEnd3 =
                   (case nextCaption of Some n \<Rightarrow> min newEnd2 (cap_start n) | None \<Rightarrow> newEnd2);
                 (newStart4, newEnd4) =
                   (if newStart3 + 1 / 10 \<ge> newEnd3
                    then (case ds_mode ds of
                            ResizeStart \<Rightarrow> (newEnd3 - 1 / 10, newEnd3)
                          | ResizeEnd \<Rightarrow> (newStart3, newStart3 + 1 / 10)
                          | Move \<Rightarrow> (newStart3, newEnd3))
                    else (newStart3, newEnd3));
                 newEnd5 =
                   (if ds_mode ds = Move \<and> newStart4 = 0
                    then newStart4 + (originalEnd ds - originalStart ds) else newEnd4);
                 newStart5 =
                   (if ds_mode ds = Move \<and> newEnd5 = duration
                    then newEnd5 - (originalEnd ds - originalStart ds) else newStart4)
             in Some (ds_index ds, newStart5, newEnd5)))"

text \<open>
  One pointer move on the editor: the merged commit that
  \<open>onCaptionTimeChange\<close> (\<open>handleCaptionTimeChange\<close>) makes.
\<close>

definition drag_move ::
  "DragState option \<Rightarrow> real \<Rightarrow> real \<Rightarrow> real \<Rightarrow> real \<Rightarrow> Editor \<Rightarrow> Editor" where
  "drag_move dragState duration zoomLevel currentTime clientX ed =
     (case handleMouseMove dragState duration (pixelsPerSecond zoomLevel) currentTime
             (current_captions ed) clientX of
        None \<Rightarrow> ed
      | Some (index, s, e) \<Rightarrow> handleCaptionTimeChange index s e True ed)"

text \<open>
  \<open>handleMouseUp\<close>: the closing commit with the times the caption has now.
  Reading \<open>finalCaption.start\<close> of a missing caption raises a TypeError.
\<close>

definition handleMouseUp :: "DragState option \<Rightarrow> Editor \<Rightarrow> js_error + Editor" where
  "handleMouseUp dragState ed =
     (case dragState of
        None \<Rightarrow> Inr ed
      | Some ds \<Rightarrow>
          (case js_nth (current_captions ed) (ds_index ds) of
             None \<Rightarrow> Inl TypeError
           | Some finalCaption \<Rightarrow>
               Inr (handleCaptionTimeChange (ds_index ds) (cap_start finalCaption)
                      (cap_end finalCaption) False ed)))"

text \<open>
  A completed drag: the pointer moves through the positions \<open>xs\<close> (each a
  merged commit), then the button is released (the closing commit).
\<close>

fun drag_moves ::
  "DragState option \<Rightarrow> real \<Rightarrow> real \<Rightarrow> real \<Rightarrow> real list \<Rightarrow> Editor \<Rightarrow> Editor" where
  "drag_moves dragState duration zoomLevel currentTime [] ed = ed"
| "drag_moves dragState duration zoomLevel currentTime (clientX # xs) ed =
     drag_moves dragState duration zoomLevel currentTime xs
       (drag_move dragState duration zoomLevel currentTime clientX ed)"

definition completed_drag ::
  "DragState option \<Rightarrow> real \<Rightarrow> real \<Rightarrow> real \<Rightarrow> real list \<Rightarrow> Editor \<Rightarrow> js_error + Editor" where
  "completed_drag dragState duration zoomLevel currentTime xs ed =
     handleMouseUp dragState (drag_moves dragState duration zoomLevel currentTime xs ed)"

text \<open>
  The arrow-key branch of \<open>handleKeyDown\<close> (a caption is selected). The
  result is the call \<open>handleCaptionTimeChange(selectedCaptionIndex, newStart,
  newEnd, true)\<close>, \<open>None\<close> when the final guard refuses the nudge.
\<close>

datatype ArrowKey = ArrowLeft | ArrowRight

definition handleKeyDown_nudge ::
  "ArrowKey \<Rightarrow> bool \<Rightarrow> nat \<Rightarrow> real \<Rightarrow> Caption list \<Rightarrow> js_error + (real \<times> real) option" where
  "handleKeyDown_nudge key shiftKey selectedCaptionIndex videoDuration caps =
     (case js_nth caps selectedCaptionIndex of
        None \<Rightarrow> Inl TypeError
      | Some caption \<Rightarrow>
          (let frameDuration = 1 / 30;
               nudgeAmount = (if shiftKey then 10 * frameDuration else frameDuration);
               duration = cap_end caption - cap_start caption;
               newStart0 =
                 (if key = ArrowLeft then cap_start caption - nudgeAmount
                  else cap_start caption + nudgeAmount);
               newEnd0 = newStart0 + duration;
               (newStart1, newEnd1) =
                 (if newStart0 < 0 then (0, duration) else (newStart0, newEnd0));
               (newStart2, newEnd2) =
                 (if newEnd1 > videoDuration then (videoDuration - duration, videoDuration)
                  else (newStart1, newEnd1));
               prevCaption = js_nth_pred caps selectedCaptionIndex;
               (newStart3, newEnd3) =
                 (case prevCaption of
                    Some p \<Rightarrow>
                      if newStart2 < cap_end p then (cap_end p, cap_end p + duration)
                      else (newStart2, newEnd2)
                  | None \<Rightarrow> (newStart2, newEnd2));
               nextCaption = js_nth caps (selectedCaptionIndex + 1);
               (newStart4, newEnd4) =
                 (case nextCaption of
                    Some n \<Rightarrow>
                      if newEnd3 > cap_start n then (cap_start n - duration, cap_start n)
                      else (newStart3, newEnd3)
                  | None \<Rightarrow> (newStart3, newEnd3))
           in Inr (if newStart4 \<ge> 0 \<and> newEnd4 \<le> videoDuration \<and> newEnd4 > newStart4
                   then Some (newStart4, newEnd4) else None)))"

definition nudge ::
  "ArrowKey \<Rightarrow> bool \<Rightarrow> nat \<Rightarrow> real \<Rightarrow> Editor \<Rightarrow> js_error + Editor" where
  "nudge key shiftKey selectedCaptionIndex videoDuration ed =
     (case handleKeyDown_nudge key shiftKey selectedCaptionIndex videoDuration
             (current_captions ed) of
        Inl err \<Rightarrow> Inl err
      | Inr None \<Rightarrow> Inr ed
      | Inr (Some (s, e)) \<Rightarrow> Inr (handleCaptionTimeChange selectedCaptionIndex s e True ed))"

text \<open>
  The invariant of a caption list that the spec asks of every edit: each
  caption at least 0.1 s long (so \<open>start < end\<close>), and no caption starting
  before the one before it ends.
\<close>

definition caption_ok :: "Caption \<Rightarrow> bool" where
  "caption_ok c = (cap_start c < cap_end c \<and> cap_end c - cap_start c \<ge> 1 / 10)"

fun timeline_ok :: "Caption list \<Rightarrow> bool" where
  "timeline_ok [] = True"
| "timeline_ok [c] = caption_ok c"
| "timeline_ok (c # d # cs) =
     (caption_ok c \<and> cap_end c \<le> cap_start d \<and> timeline_ok (d # cs))"

text \<open>
  \<open>handleWheel\<close>. The scroll container is given by the left edge of its
  bounding rectangle and its \<open>scrollLeft\<close>, \<open>None\<close> when the ref is empty.
  The result is the zoom passed to \<open>onZoomChange\<close> and the value assigned
  to \<open>scrollContainer.scrollLeft\<close>; \<open>None\<close> when the handler does nothing.
\<close>

record ScrollContainer =
  rect_left :: real
  scrollLeft :: real

definition handleWheel ::
  "bool \<Rightarrow> bool \<Rightarrow> ScrollContainer option \<Rightarrow> real \<Rightarrow> real \<Rightarrow> real \<Rightarrow> (real \<times> real) option" where
  "handleWheel ctrlKey metaKey scrollContainer clientX deltaY zoomLevel =
     (if ctrlKey \<or> metaKey then
        (case scrollContainer of
           None \<Rightarrow> None
         | Some sc \<Rightarrow>
             (let mouseX = clientX - rect_left sc;
                  timeAtCursor = (scrollLeft sc + mouseX) / pixelsPerSecond zoomLevel;
                  zoomFactor = - deltaY * (5 / 1000);
                  newZoom = max (2 / 10) (min 5 (zoomLevel + zoomFactor));
                  newPixelsPerSecond = PIXELS_PER_SECOND_BASE * newZoom;
                  newScrollLeft = timeAtCursor * newPixelsPerSecond - mouseX
              in Some (newZoom, newScrollLeft)))
      else None)"

section \<open>The constraint policy of the spec, step by step\<close>

text \<open>
  The spec (section 4.4) lists the steps applied to a proposed
  \<open>(newStart, newEnd)\<close>: clamp to the timeline, clamp against the
  neighbours, snap to the playhead, minimum duration, and for a move the
  rebuilding of the other edge at a timeline boundary. Each step is written
  here as a function on the pair, with the body \<open>handleMouseMove\<close> gives
  it; \<open>policy_in_spec_order\<close> composes them in the order the spec states,
  \<open>policy_in_code_order\<close> in the order of the statements of
  \<open>handleMouseMove\<close>.
\<close>

definition proposed :: "DragState \<Rightarrow> real \<Rightarrow> real \<times> real" where
  "proposed ds deltaTime =
     (case ds_mode ds of
        Move \<Rightarrow> (originalStart ds + deltaTime, originalEnd ds + deltaTime)
      | ResizeStart \<Rightarrow> (originalStart ds + deltaTime, originalEnd ds)
      | ResizeEnd \<Rightarrow> (originalStart ds, originalEnd ds + deltaTime))"

definition near_playhead :: "real \<Rightarrow> real \<Rightarrow> real \<Rightarrow> bool" where
  "near_playhead pps currentTime t = (\<bar>t * pps - currentTime * pps\<bar> < SNAP_THRESHOLD_PX)"

definition snap_step :: "DragMode \<Rightarrow> real \<Rightarrow> real \<Rightarrow> real \<times> real \<Rightarrow> real \<times> real" where
  "snap_step mode pps currentTime se =
     (case mode of
        Move \<Rightarrow>
          if near_playhead pps currentTime (fst se)
          then (fst se + (currentTime - fst se), snd se + (currentTime - fst se))
          else if near_playhead pps currentTime (snd se)
          then (fst se + (currentTime - snd se), snd se + (currentTime - snd se))
          else se
      | ResizeStart \<Rightarrow>
          if near_playhead pps currentTime (fst se) then (currentTime, snd se) else se
      | ResizeEnd \<Rightarrow>
          if near_playhead pps currentTime (snd se) then (fst se, currentTime) else se)"

definition clamp_timeline_step :: "real \<Rightarrow> real \<times> real \<Rightarrow> real \<times> real" where
  "clamp_timeline_step duration se = (max 0 (fst se), min duration (snd se))"

definition clamp_neighbours_step :: "Caption list \<Rightarrow> nat \<Rightarrow> real \<times> real \<Rightarrow> real \<times> real" where
  "clamp_neighbours_step caps index se =
     ((case js_nth_pred caps index of Some p \<Rightarrow> max (fst se) (cap_end p) | None \<Rightarrow> fst se),
      (case js_nth caps (index + 1) of Some n \<Rightarrow> min (snd se) (cap_start n) | None \<Rightarrow> snd se))"

definition min_duration_step :: "DragMode \<Rightarrow> real \<times> real \<Rightarrow> real \<times> real" where
  "min_duration_step mode se =
     (if fst se + 1 / 10 \<ge> snd se
      then (case mode of
              ResizeStart \<Rightarrow> (snd se - 1 / 10, snd se)
            | ResizeEnd \<Rightarrow> (fst se, fst se + 1 / 10)
            | Move \<Rightarrow> se)
      else se)"

definition move_boundary_step :: "DragState \<Rightarrow> real \<Rightarrow> real \<times> real \<Rightarrow> real \<times> real" where
  "move_boundary_step ds duration se =
     (let e = (if ds_mode ds = Move \<and> fst se = 0
               then fst se + (originalEnd ds - originalStart ds) else snd se);
          s = (if ds_mode ds = Move \<and> e = duration
               then e - (originalEnd ds - originalStart ds) else fst se)
      in (s, e))"

definition policy_in_spec_order ::
  "DragState \<Rightarrow> real \<Rightarrow> real \<Rightarrow> real \<Rightarrow> Caption list \<Rightarrow> real \<Rightarrow> real \<times> real" where
  "policy_in_spec_order ds duration pps currentTime caps deltaTime =
     move_boundary_step ds duration
       (min_duration_step (ds_mode ds)
          (snap_step (ds_mode ds) pps currentTime
             (clamp_neighbours_step caps (ds_index ds)
                (clamp_timeline_step duration (proposed ds deltaTime)))))"

definition policy_in_code_order ::
  "DragState \<Rightarrow> real \<Rightarrow> real \<Rightarrow> real \<Rightarrow> Caption list \<Rightarrow> real \<Rightarrow> real \<times> real" where
  "policy_in_code_order ds duration pps currentTime caps deltaTime =
     move_boundary_step ds duration
       (min_duration_step (ds_mode ds)
          (clamp_neighbours_step caps (ds_index ds)
             (clamp_timeline_step duration
                (snap_step (ds_mode ds) pps currentTime (proposed ds deltaTime)))))"

text \<open>
  The caption picked up at pointer-down lies on the timeline, is at least
  0.1 s long and respects its neighbours; and a pair of times respects the
  neighbours of the caption at \<open>index\<close>.
\<close>

definition within_neighbours :: "Caption list \<Rightarrow> nat \<Rightarrow> real \<times> real \<Rightarrow> bool" where
  "within_neighbours caps index se =
     ((case js_nth_pred caps index of Some p \<Rightarrow> cap_end p \<le> fst se | None \<Rightarrow> True)
      \<and> (case js_nth caps (index + 1) of Some n \<Rightarrow> snd se \<le> cap_start n | None \<Rightarrow> True))"

definition drag_origin_ok :: "DragState \<Rightarrow> real \<Rightarrow> Caption list \<Rightarrow> bool" where
  "drag_origin_ok ds duration caps =
     (0 \<le> originalStart ds \<and> originalEnd ds \<le> duration
      \<and> originalStart ds + 1 / 10 \<le> originalEnd ds
      \<and> within_neighbours caps (ds_index ds) (originalStart ds, originalEnd ds))"

section \<open>Export (VideoEditor.tsx, handleExport)\<close>

text \<open>
  One rendered frame: the time the video was sought to, and the text handed
  to \<open>drawText\<close> on top of it, \<open>None\<close> when no caption is drawn.
\<close>

record Frame =
  frame_time :: real
  frame_caption :: "string option"

text \<open>
  The frame loop \<open>for (let i = 0; i <= numFrames; i++)\<close>; \<open>acc\<close> collects
  the frames drawn so far. \<open>captions.find\<close> is \<open>find\<close>.
\<close>

function export_loop :: "int \<Rightarrow> int \<Rightarrow> Caption list \<Rightarrow> Frame list \<Rightarrow> Frame list" where
  "export_loop i numFrames caps acc =
     (if i \<le> numFrames then
        (let time = real_of_int i / 30;
             activeCaption = find (\<lambda>c. time \<ge> cap_start c \<and> time < cap_end c) caps
         in export_loop (i + 1) numFrames caps
              (acc @ [\<lparr> frame_time = time,
                        frame_caption = map_option cap_text activeCaption \<rparr>]))
      else acc)"
  by pat_completeness auto
termination
  by (relation "measure (\<lambda>(i, numFrames, caps, acc). nat (numFrames + 1 - i))") auto

declare export_loop.simps [simp del]

text \<open>
  \<open>handleExport\<close>: nothing is rendered without the video element, the
  MediaRecorder API or a 2d canvas context; otherwise the frames of the loop.
\<close>

definition handleExport ::
  "bool \<Rightarrow> bool \<Rightarrow> bool \<Rightarrow> real \<Rightarrow> Caption list \<Rightarrow> Frame list option" where
  "handleExport hasVideo hasMediaRecorder hasContext duration caps =
     (if \<not> hasVideo then None
      else if \<not> hasMediaRecorder then None
      else if \<not> hasContext then None
      else (let frameRate = 30;
                numFrames = \<lfloor>duration * frameRate\<rfloor>
            in Some (export_loop 0 numFrames caps [])))"

text \<open>
  Frame \<open>i\<close> as the loop body builds it: sought to \<open>i / 30\<close>, with the
  text of the first caption whose \<open>[start, end)\<close> holds that time.
\<close>

definition frame_at :: "Caption list \<Rightarrow> int \<Rightarrow> Frame" where
  "frame_at caps i =
     \<lparr> frame_time = real_of_int i / 30,
       frame_caption =
         map_option cap_text
           (find (\<lambda>c. real_of_int i / 30 \<ge> cap_start c \<and> real_of_int i / 30 < cap_end c) caps) \<rparr>"

section \<open>SRT export (VideoEditor.tsx, formatSRTTime / handleDownloadSRT)\<close>

text \<open>\<open>String(n)\<close> for a natural number, and \<open>padStart(k, '0')\<close> for \<open>k = 2, 3\<close>.\<close>

definition digit_char :: "nat \<Rightarrow> char" where
  "digit_char n = ''0123456789'' ! (n mod 10)"

fun show_nat :: "nat \<Rightarrow> string" where
  "show_nat n = (if n < 10 then [digit_char n] else show_nat (n div 10) @ [digit_char n])"

declare show_nat.simps [simp del]

definition pad2 :: "nat \<Rightarrow> string" where
  "pad2 n = (if n < 10 then ''0'' @ show_nat n else show_nat n)"

definition pad3 :: "nat \<Rightarrow> string" where
  "pad3 n = (if n < 10 then ''00'' @ show_nat n
             else if n < 100 then ''0'' @ show_nat n else show_nat n)"

text \<open>
  The \<open>Date\<close> methods that \<open>formatSRTTime\<close> calls, as ECMAScript defines
  them. \<open>setSeconds(sec)\<close> builds the new time with \<open>MakeTime\<close>, which
  takes \<open>ToIntegerOrInfinity(sec)\<close>: the fraction of \<open>sec\<close> is cut off
  (towards zero), and the milliseconds stay those of the date, 0 for
  \<open>new Date(0)\<close>. The local time zone is taken to be a whole number of
  minutes from UTC, so that the seconds of local and UTC time agree.
\<close>

definition ToIntegerOrInfinity :: "real \<Rightarrow> int" where
  "ToIntegerOrInfinity x = (if x \<ge> 0 then \<lfloor>x\<rfloor> else \<lceil>x\<rceil>)"

text \<open>The time value, in milliseconds, of \<open>new Date(0)\<close> after \<open>setSeconds(seconds)\<close>.\<close>

definition setSeconds_of_epoch :: "real \<Rightarrow> int" where
  "setSeconds_of_epoch seconds = ToIntegerOrInfinity seconds * 1000 + 0"

text \<open>
  \<open>toISOString().substr(11, 12)\<close>: the twelve characters \<open>HH:MM:SS.mmm\<close>
  of \<open>YYYY-MM-DDTHH:MM:SS.mmmZ\<close>. That holds for the years 0000 to 9999;
  outside them the year is written with a sign and six digits (or the time
  value is out of range and \<open>toISOString\<close> raises), which the model does not
  follow: \<open>None\<close>.
\<close>

definition iso_time_of_day :: "int \<Rightarrow> string option" where
  "iso_time_of_day tv =
     (if - 62167219200000 \<le> tv \<and> tv < 253402300800000 then
        Some (pad2 (nat ((tv div 3600000) mod 24)) @ '':''
              @ pad2 (nat ((tv div 60000) mod 60)) @ '':''
              @ pad2 (nat ((tv div 1000) mod 60)) @ ''.''
              @ pad3 (nat (tv mod 1000)))
      else None)"

text \<open>\<open>s.replace(a, b)\<close> with one-character strings: the first \<open>a\<close> becomes \<open>b\<close>.\<close>

fun replace_first :: "char \<Rightarrow> char \<Rightarrow> string \<Rightarrow> string" where
  "replace_first a b [] = []"
| "replace_first a b (c # cs) = (if c = a then b # cs else c # replace_first a b cs)"

definition formatSRTTime :: "real \<Rightarrow> string option" where
  "formatSRTTime seconds =
     map_option (replace_first (CHR ''.'') (CHR '',''))
       (iso_time_of_day (setSeconds_of_epoch seconds))"

text \<open>\<open>xs.join(sep)\<close>.\<close>

fun js_join :: "string \<Rightarrow> string list \<Rightarrow> string" where
  "js_join sep [] = []"
| "js_join sep [x] = x"
| "js_join sep (x # y # ys) = x @ sep @ js_join sep (y # ys)"

text \<open>
  One block of the map in \<open>handleDownloadSRT\<close>, for the caption at
  \<open>index\<close>, and the content handed to the Blob. \<open>CHR 0x0A\<close> is the line
  feed.
\<close>

definition srt_block :: "nat \<Rightarrow> Caption \<Rightarrow> string option" where
  "srt_block index caption =
     (case (formatSRTTime (cap_start caption), formatSRTTime (cap_end caption)) of
        (Some s, Some e) \<Rightarrow>
          Some (show_nat (index + 1) @ [CHR 0x0A] @ s @ '' --> '' @ e @ [CHR 0x0A]
                @ cap_text caption @ [CHR 0x0A])
      | _ \<Rightarrow> None)"

definition handleDownloadSRT :: "Caption list \<Rightarrow> string option" where
  "handleDownloadSRT caps =
     map_option (js_join [CHR 0x0A])
       (those (map (\<lambda>(index, caption). srt_block index caption)
                 (zip [0..<length caps] caps)))"

section \<open>Text layout (VideoEditor.tsx, drawText: the word-wrap loop)\<close>

text \<open>\<open>s.split(sep)\<close> with a one-character separator: never empty, \<open>[""]\<close> for \<open>""\<close>.\<close>

fun js_split :: "char \<Rightarrow> string \<Rightarrow> string list" where
  "js_split sep [] = [[]]"
| "js_split sep (c # cs) =
     (if c = sep then [] # js_split sep cs
      else (c # hd (js_split sep cs)) # tl (js_split sep cs))"

text \<open>
  The inner loop \<open>for (const word of initialLine.split(' '))\<close> with the
  closing \<open>allLines.push(currentLine)\<close>: the lines pushed from here on,
  given the words still to come and \<open>currentLine\<close>.
  \<open>measureText\<close> is \<open>s => ctx.measureText(s).width\<close> for the font set
  on the context; the empty string is the only falsy \<open>currentLine\<close>.
\<close>

primrec wrap_words :: "(string \<Rightarrow> real) \<Rightarrow> real \<Rightarrow> string list \<Rightarrow> string \<Rightarrow> string list" where
  "wrap_words measureText maxWidthPx [] currentLine = [currentLine]"
| "wrap_words measureText maxWidthPx (word # ws) currentLine =
     (let testLine = (if currentLine \<noteq> [] then currentLine @ '' '' @ word else word)
      in if measureText testLine > maxWidthPx \<and> currentLine \<noteq> []
         then currentLine # wrap_words measureText maxWidthPx ws word
         else wrap_words measureText maxWidthPx ws testLine)"

definition wrap_line :: "(string \<Rightarrow> real) \<Rightarrow> real \<Rightarrow> string \<Rightarrow> string list" where
  "wrap_line measureText maxWidthPx initialLine =
     wrap_words measureText maxWidthPx (js_split (CHR '' '') initialLine) []"

text \<open>\<open>allLines\<close> of \<open>drawText\<close>, with \<open>maxWidthPx = (styles.maxWidth / 100) * videoWidth\<close>.\<close>

definition drawText_allLines ::
  "(string \<Rightarrow> real) \<Rightarrow> StyleOptions \<Rightarrow> real \<Rightarrow> string \<Rightarrow> string list" where
  "drawText_allLines measureText st videoWidth txt =
     (let maxWidthPx = (maxWidth st / 100) * videoWidth
      in concat (map (wrap_line measureText maxWidthPx) (js_split (CHR 0x0A) txt)))"

text \<open>
  The width that C8 assumes: a line is as wide as its words (each word \<open>w\<close>
  of width \<open>wordWidth w\<close>) plus one space of width \<open>spaceWidth\<close> between
  neighbours.
\<close>

definition words_width :: "(string \<Rightarrow> real) \<Rightarrow> real \<Rightarrow> string \<Rightarrow> real" where
  "words_width wordWidth spaceWidth line =
     sum_list (map wordWidth (js_split (CHR '' '') line))
       + spaceWidth * (real (length (js_split (CHR '' '') line)) - 1)"

section \<open>History: proofs\<close>

lemma updateState_merge_valid:
  "cursor_valid ed \<Longrightarrow>
     history (updateState f True ed) =
       take (historyIndex ed) (history ed) @ [f (history ed ! historyIndex ed)]
     \<and> historyIndex (updateState f True ed) = historyIndex ed"
  by (simp add: updateState_def cursor_valid_def js_nth_def Let_def)

lemma updateState_commit_valid:
  "cursor_valid ed \<Longrightarrow>
     history (updateState f False ed) =
       take (historyIndex ed + 1) (history ed) @ [f (history ed ! historyIndex ed)]
     \<and> historyIndex (updateState f False ed) = historyIndex ed + 1"
  by (simp add: updateState_def cursor_valid_def js_nth_def Let_def)

lemma updateState_cursor_valid:
  "cursor_valid ed \<Longrightarrow> cursor_valid (updateState f m ed)"
  by (cases m) (auto simp: updateState_def cursor_valid_def js_nth_def Let_def)

lemma merged_commits_cursor:
  "cursor_valid ed \<Longrightarrow>
     cursor_valid (merged_commits fs ed)
     \<and> historyIndex (merged_commits fs ed) = historyIndex ed"
proof (induction fs arbitrary: ed)
  case Nil
  then show ?case by simp
next
  case (Cons f fs)
  have v: "cursor_valid (updateState f True ed)"
    using Cons.prems by (rule updateState_cursor_valid)
  have "historyIndex (updateState f True ed) = historyIndex ed"
    using Cons.prems by (simp add: updateState_merge_valid)
  with Cons.IH [OF v] show ?case by simp
qed

lemma merged_commits_length:
  "cursor_valid ed \<Longrightarrow> fs \<noteq> [] \<Longrightarrow>
     length (history (merged_commits fs ed)) = historyIndex ed + 1"
proof (induction fs arbitrary: ed)
  case Nil
  then show ?case by simp
next
  case (Cons f fs)
  let ?e = "updateState f True ed"
  have v: "cursor_valid ?e"
    using Cons.prems(1) by (rule updateState_cursor_valid)
  have i: "historyIndex ?e = historyIndex ed"
    using Cons.prems(1) by (simp add: updateState_merge_valid)
  have l: "length (history ?e) = historyIndex ed + 1"
    using Cons.prems(1) by (simp add: updateState_merge_valid cursor_valid_def)
  show ?case
  proof (cases fs)
    case Nil
    with l show ?thesis by simp
  next
    case (Cons g gs)
    then have "fs \<noteq> []" by simp
    with Cons.IH [OF v] i show ?thesis by simp
  qed
qed

lemma undo_cursor_valid: "cursor_valid ed \<Longrightarrow> cursor_valid (undo ed)"
  by (auto simp: undo_def canUndo_def cursor_valid_def)

lemma redo_cursor_valid: "cursor_valid ed \<Longrightarrow> cursor_valid (redo ed)"
  by (auto simp: redo_def canRedo_def cursor_valid_def)

lemma reachable_cursor_valid: "reachable ed \<Longrightarrow> cursor_valid ed"
proof (induction rule: reachable.induct)
  case (reach_init cs)
  show ?case by (simp add: initial_editor_def cursor_valid_def)
next
  case (reach_update ed f m)
  then show ?case by (simp add: updateState_cursor_valid)
next
  case (reach_undo ed)
  then show ?case by (simp add: undo_cursor_valid)
next
  case (reach_redo ed)
  then show ?case by (simp add: redo_cursor_valid)
qed


text \<open>
  C2 (as the code has it). A gesture started with the cursor on a snapshot
  leaves \<open>historyIndex + 2\<close> snapshots and the cursor one further: one more
  snapshot than the prefix up to the cursor, however many merged commits came
  first. That is the old length plus one exactly when the cursor was on the
  last snapshot, because every commit, merged or not, drops the snapshots
  after the cursor. A merged commit replaces the snapshot under the cursor,
  keeps the ones before it, keeps the cursor and never grows the list.
\<close>

theorem gesture_adds_one_after_cursor:
  "cursor_valid ed \<Longrightarrow>
     length (history (gesture fs g ed)) = historyIndex ed + 2
     \<and> historyIndex (gesture fs g ed) = historyIndex ed + 1
     \<and> ((length (history (gesture fs g ed)) = length (history ed) + 1)
          = (historyIndex ed + 1 = length (history ed)))
     \<and> history (updateState f True ed) =
          take (historyIndex ed) (history ed) @ [f (history ed ! historyIndex ed)]
     \<and> historyIndex (updateState f True ed) = historyIndex ed
     \<and> length (history (updateState f True ed)) \<le> length (history ed)"
proof -
  assume v: "cursor_valid ed"
  let ?m = "merged_commits fs ed"
  have mv: "cursor_valid ?m" and mi: "historyIndex ?m = historyIndex ed"
    using merged_commits_cursor [OF v] by simp_all
  have len: "length (history (gesture fs g ed)) = historyIndex ed + 2"
    using updateState_commit_valid [OF mv, of g] mv mi
    by (simp add: gesture_def cursor_valid_def)
  have idx: "historyIndex (gesture fs g ed) = historyIndex ed + 1"
    using updateState_commit_valid [OF mv, of g] mi by (simp add: gesture_def)
  have cmp: "(length (history (gesture fs g ed)) = length (history ed) + 1)
               = (historyIndex ed + 1 = length (history ed))"
    using len by auto
  have mrg: "history (updateState f True ed) =
               take (historyIndex ed) (history ed) @ [f (history ed ! historyIndex ed)]"
    and keep: "historyIndex (updateState f True ed) = historyIndex ed"
    using updateState_merge_valid [OF v, of f] by simp_all
  have shrink: "length (history (updateState f True ed)) \<le> length (history ed)"
    using mrg v by (simp add: cursor_valid_def)
  from len idx cmp mrg keep shrink show ?thesis by blast
qed

theorem gesture_adds_one_after_cursor_witness:
  "cursor_valid (initial_editor [])
   \<and> length (history (gesture [\<lambda>s. s, \<lambda>s. s] (\<lambda>s. s) (initial_editor []))) = 2
   \<and> historyIndex (gesture [\<lambda>s. s, \<lambda>s. s] (\<lambda>s. s) (initial_editor [])) = 1
   \<and> length (history (updateState (\<lambda>s. s) True (initial_editor []))) = 1"
proof -
  have v: "cursor_valid (initial_editor [])"
    by (simp add: cursor_valid_def initial_editor_def)
  show ?thesis
    using v gesture_adds_one_after_cursor
            [OF v, of "[\<lambda>s. s, \<lambda>s. s]" "\<lambda>s. s" "\<lambda>s. s"]
    by (simp add: initial_editor_def)
qed

text \<open>
  C2 as stated fails when the cursor is not on the last snapshot: after two
  commits and two undos the history has three snapshots and the cursor is at
  0; one merged commit followed by a commit leaves two snapshots, not four,
  and the merged commit alone leaves one.
\<close>

theorem gesture_length_counterexample:
  "\<not> (length (history (gesture [\<lambda>s. s] (\<lambda>s. s)
          (undo (undo (updateState (\<lambda>s. s) False
             (updateState (\<lambda>s. s) False (initial_editor [])))))))
       = length (history
          (undo (undo (updateState (\<lambda>s. s) False
             (updateState (\<lambda>s. s) False (initial_editor [])))))) + 1)"
  by (simp add: gesture_def updateState_def undo_def canUndo_def initial_editor_def
        js_nth_def Let_def)

text \<open>
  C3. In every reachable history state with the cursor above 0, undo followed
  by redo gives back the very same history and cursor, hence the same current
  snapshot (captions and styles); undo does nothing at cursor 0, and redo does
  nothing when the cursor is on the last snapshot.
\<close>

theorem undo_redo_restores:
  "reachable ed \<Longrightarrow>
     (0 < historyIndex ed \<longrightarrow>
        redo (undo ed) = ed \<and> currentState (redo (undo ed)) = currentState ed)
     \<and> (historyIndex ed = 0 \<longrightarrow> undo ed = ed)
     \<and> (historyIndex ed + 1 = length (history ed) \<longrightarrow> redo ed = ed)"
proof -
  assume "reachable ed"
  then have v: "historyIndex ed < length (history ed)"
    using reachable_cursor_valid by (simp add: cursor_valid_def)
  have a: "0 < historyIndex ed \<longrightarrow> redo (undo ed) = ed"
    using v by (auto simp: undo_def redo_def canUndo_def canRedo_def)
  have b: "historyIndex ed = 0 \<longrightarrow> undo ed = ed"
    by (simp add: undo_def canUndo_def)
  have c: "historyIndex ed + 1 = length (history ed) \<longrightarrow> redo ed = ed"
    by (auto simp: redo_def canRedo_def)
  from a b c show ?thesis by simp
qed

theorem undo_redo_restores_witness:
  "0 < historyIndex (updateState (\<lambda>s. s) False (initial_editor []))
   \<and> redo (undo (updateState (\<lambda>s. s) False (initial_editor [])))
       = updateState (\<lambda>s. s) False (initial_editor [])
   \<and> undo (initial_editor []) = initial_editor []
   \<and> redo (initial_editor []) = initial_editor []"
proof -
  have r0: "reachable (initial_editor [])"
    by (rule reach_init)
  have r1: "reachable (updateState (\<lambda>s. s) False (initial_editor []))"
    using r0 by (rule reach_update)
  have i0: "historyIndex (initial_editor []) = 0"
       "historyIndex (initial_editor []) + 1 = length (history (initial_editor []))"
    by (simp_all add: initial_editor_def)
  have i1: "0 < historyIndex (updateState (\<lambda>s. s) False (initial_editor []))"
    by (simp add: updateState_def initial_editor_def Let_def)
  from undo_redo_restores [OF r1] undo_redo_restores [OF r0] i0 i1
  show ?thesis by simp
qed

section \<open>Caption edits: proofs\<close>

lemma current_captions_valid:
  "cursor_valid ed \<Longrightarrow> current_captions ed = captions (history ed ! historyIndex ed)"
  by (simp add: current_captions_def currentState_def js_nth_def cursor_valid_def)

lemma current_styles_valid:
  "cursor_valid ed \<Longrightarrow> current_styles ed = styles (history ed ! historyIndex ed)"
  by (simp add: current_styles_def currentState_def js_nth_def cursor_valid_def)

lemma current_after_commit:
  "cursor_valid ed \<Longrightarrow>
     current_captions (updateState f False ed) = captions (f (history ed ! historyIndex ed))
     \<and> current_styles (updateState f False ed) = styles (f (history ed ! historyIndex ed))"
proof -
  assume v: "cursor_valid ed"
  let ?e = "updateState f False ed"
  have h: "history ?e = take (historyIndex ed + 1) (history ed) @ [f (history ed ! historyIndex ed)]"
    and i: "historyIndex ?e = historyIndex ed + 1"
    using updateState_commit_valid [OF v, of f] by simp_all
  have l: "length (take (historyIndex ed + 1) (history ed)) = historyIndex ed + 1"
    using v by (simp add: cursor_valid_def)
  have n: "history ?e ! historyIndex ?e = f (history ed ! historyIndex ed)"
    unfolding h i using l by (simp add: nth_append)
  have v': "cursor_valid ?e"
    using v by (rule updateState_cursor_valid)
  show ?thesis
    using n current_captions_valid [OF v'] current_styles_valid [OF v'] by simp
qed

text \<open>
  C10. With the cursor on a snapshot whose caption list has the caption \<open>c\<close>
  at index \<open>i\<close>, a split at a time \<open>t\<close> strictly inside \<open>c\<close> commits a
  snapshot whose captions are the old ones with \<open>c\<close> replaced by
  \<open>c\<close> ending at \<open>t\<close> and \<open>c\<close> starting at \<open>t\<close>, at positions \<open>i\<close> and
  \<open>i + 1\<close>: one caption more, the same text in both parts, the two parts
  tiling the interval of \<open>c\<close>, every other caption and the styles as before.
  For \<open>t\<close> at or outside the bounds of \<open>c\<close> the editor is returned unchanged.
\<close>

theorem handleSplitCaption_splits:
  "cursor_valid ed \<Longrightarrow> js_nth (current_captions ed) i = Some c \<Longrightarrow>
     (cap_start c < t \<and> t < cap_end c \<longrightarrow>
        (\<exists>ed'. handleSplitCaption i (Some t) ed = Inr ed'
           \<and> current_captions ed' =
               take i (current_captions ed)
                 @ [c\<lparr> cap_end := t \<rparr>, c\<lparr> cap_start := t \<rparr>]
                 @ drop (i + 1) (current_captions ed)
           \<and> length (current_captions ed') = length (current_captions ed) + 1
           \<and> current_captions ed' ! i =
               \<lparr> cap_start = cap_start c, cap_end = t, cap_text = cap_text c \<rparr>
           \<and> current_captions ed' ! (i + 1) =
               \<lparr> cap_start = t, cap_end = cap_end c, cap_text = cap_text c \<rparr>
           \<and> (\<forall>j < i. current_captions ed' ! j = current_captions ed ! j)
           \<and> (\<forall>j. i < j \<and> j < length (current_captions ed) \<longrightarrow>
                  current_captions ed' ! (j + 1) = current_captions ed ! j)
           \<and> current_styles ed' = current_styles ed))
     \<and> (t \<le> cap_start c \<or> cap_end c \<le> t \<longrightarrow> handleSplitCaption i (Some t) ed = Inr ed)"
proof -
  assume v: "cursor_valid ed" and c: "js_nth (current_captions ed) i = Some c"
  let ?cs = "current_captions ed"
  let ?s = "history ed ! historyIndex ed"
  have cs: "?cs = captions ?s"
    using v by (rule current_captions_valid)
  have il: "i < length ?cs" and ci: "?cs ! i = c"
    using c by (auto simp: js_nth_def split: if_splits)
  have outside: "t \<le> cap_start c \<or> cap_end c \<le> t \<longrightarrow> handleSplitCaption i (Some t) ed = Inr ed"
    using c by (auto simp: handleSplitCaption_def)
  have inside: "cap_start c < t \<and> t < cap_end c \<longrightarrow>
        (\<exists>ed'. handleSplitCaption i (Some t) ed = Inr ed'
           \<and> current_captions ed' =
               take i ?cs @ [c\<lparr> cap_end := t \<rparr>, c\<lparr> cap_start := t \<rparr>] @ drop (i + 1) ?cs
           \<and> length (current_captions ed') = length ?cs + 1
           \<and> current_captions ed' ! i =
               \<lparr> cap_start = cap_start c, cap_end = t, cap_text = cap_text c \<rparr>
           \<and> current_captions ed' ! (i + 1) =
               \<lparr> cap_start = t, cap_end = cap_end c, cap_text = cap_text c \<rparr>
           \<and> (\<forall>j < i. current_captions ed' ! j = ?cs ! j)
           \<and> (\<forall>j. i < j \<and> j < length ?cs \<longrightarrow> current_captions ed' ! (j + 1) = ?cs ! j)
           \<and> current_styles ed' = current_styles ed)"
  proof
    assume t: "cap_start c < t \<and> t < cap_end c"
    let ?ed' = "updateState (splitUpdater i t) False ed"
    let ?new = "take i ?cs @ [c\<lparr> cap_end := t \<rparr>, c\<lparr> cap_start := t \<rparr>] @ drop (i + 1) ?cs"
    have r: "handleSplitCaption i (Some t) ed = Inr ?ed'"
      using c t by (simp add: handleSplitCaption_def)
    have u: "splitUpdater i t ?s = ?s\<lparr> captions := ?new \<rparr>"
      using c cs by (simp add: splitUpdater_def Let_def)
    have caps: "current_captions ?ed' = ?new"
      using current_after_commit [OF v, of "splitUpdater i t"] u by simp
    have sty: "current_styles ?ed' = current_styles ed"
      using current_after_commit [OF v, of "splitUpdater i t"] u
        current_styles_valid [OF v] by simp
    have lt: "length (take i ?cs) = i"
      using il by simp
    have len: "length ?new = length ?cs + 1"
      using il by simp
    have n0: "?new ! i = c\<lparr> cap_end := t \<rparr>"
      using lt by (simp add: nth_append)
    have n1: "?new ! (i + 1) = c\<lparr> cap_start := t \<rparr>"
      using lt by (simp add: nth_append)
    have before: "\<forall>j < i. ?new ! j = ?cs ! j"
      using il by (simp add: nth_append)
    have after: "\<forall>j. i < j \<and> j < length ?cs \<longrightarrow> ?new ! (j + 1) = ?cs ! j"
    proof (intro allI impI)
      fix j
      assume j: "i < j \<and> j < length ?cs"
      then obtain k where k: "j = i + 1 + k"
        using less_iff_Suc_add by auto
      have "?new ! (j + 1) = drop (i + 1) ?cs ! k"
        using lt k by (simp add: nth_append)
      also have "\<dots> = ?cs ! j"
        using j k by simp
      finally show "?new ! (j + 1) = ?cs ! j" .
    qed
    have e0: "c\<lparr> cap_end := t \<rparr> = \<lparr> cap_start = cap_start c, cap_end = t, cap_text = cap_text c \<rparr>"
      by simp
    have e1: "c\<lparr> cap_start := t \<rparr> = \<lparr> cap_start = t, cap_end = cap_end c, cap_text = cap_text c \<rparr>"
      by simp
    show "\<exists>ed'. handleSplitCaption i (Some t) ed = Inr ed'
           \<and> current_captions ed' = ?new
           \<and> length (current_captions ed') = length ?cs + 1
           \<and> current_captions ed' ! i =
               \<lparr> cap_start = cap_start c, cap_end = t, cap_text = cap_text c \<rparr>
           \<and> current_captions ed' ! (i + 1) =
               \<lparr> cap_start = t, cap_end = cap_end c, cap_text = cap_text c \<rparr>
           \<and> (\<forall>j < i. current_captions ed' ! j = ?cs ! j)
           \<and> (\<forall>j. i < j \<and> j < length ?cs \<longrightarrow> current_captions ed' ! (j + 1) = ?cs ! j)
           \<and> current_styles ed' = current_styles ed"
      using r caps sty len n0 n1 before after e0 e1 by (intro exI [of _ ?ed']) simp
  qed
  from inside outside show ?thesis by blast
qed

theorem handleSplitCaption_splits_witness:
  "cursor_valid (initial_editor [\<lparr> cap_start = 0, cap_end = 4, cap_text = ''Hi'' \<rparr>])
   \<and> (\<exists>ed'. handleSplitCaption 0 (Some 2)
               (initial_editor [\<lparr> cap_start = 0, cap_end = 4, cap_text = ''Hi'' \<rparr>]) = Inr ed'
          \<and> current_captions ed' =
               [\<lparr> cap_start = 0, cap_end = 2, cap_text = ''Hi'' \<rparr>,
                \<lparr> cap_start = 2, cap_end = 4, cap_text = ''Hi'' \<rparr>])
   \<and> handleSplitCaption 0 (Some 4)
         (initial_editor [\<lparr> cap_start = 0, cap_end = 4, cap_text = ''Hi'' \<rparr>])
       = Inr (initial_editor [\<lparr> cap_start = 0, cap_end = 4, cap_text = ''Hi'' \<rparr>])"
proof -
  let ?c = "\<lparr> cap_start = 0, cap_end = 4, cap_text = ''Hi'' \<rparr>"
  let ?ed = "initial_editor [?c]"
  have v: "cursor_valid ?ed"
    by (simp add: cursor_valid_def initial_editor_def)
  have cs: "current_captions ?ed = [?c]"
    by (simp add: current_captions_def currentState_def js_nth_def initial_editor_def)
  have c: "js_nth (current_captions ?ed) 0 = Some ?c"
    by (simp add: cs js_nth_def)
  from handleSplitCaption_splits [OF v c, of 2] handleSplitCaption_splits [OF v c, of 4] v cs
  show ?thesis by auto
qed

text \<open>
  Refusal in \<open>handleAddCaption\<close>: the updater hands back the snapshot it
  was given, and \<open>updateState\<close> commits that snapshot like any other.
\<close>

lemma addCaptionUpdater_cases:
  "addCaptionUpdater t d s = (s, True) \<or> snd (addCaptionUpdater t d s) = False"
proof (cases "findIndex (\<lambda>c. cap_start c > t) (sort_key cap_start (captions s))")
  case None
  then show ?thesis
    by (simp add: addCaptionUpdater_def Let_def)
next
  case (Some k)
  then show ?thesis
    by (simp add: addCaptionUpdater_def Let_def)
qed

lemma addCaptionUpdater_refused:
  "snd (addCaptionUpdater t d s) \<Longrightarrow> fst (addCaptionUpdater t d s) = s"
  using addCaptionUpdater_cases [of t d s] by auto

lemma updateState_cong_current:
  "currentState ed = Some s \<Longrightarrow> f s = g s \<Longrightarrow> updateState f m ed = updateState g m ed"
  by (simp add: updateState_def currentState_def Let_def)

lemma addCaption_refused_is_commit:
  "snd (handleAddCaption vt d ed) \<Longrightarrow>
     fst (handleAddCaption vt d ed) = updateState (\<lambda>s. s) False ed"
proof -
  assume a: "snd (handleAddCaption vt d ed)"
  define t where "t = (case vt of Some t \<Rightarrow> t | None \<Rightarrow> (0::real))"
  from a obtain s where s: "currentState ed = Some s" and r: "snd (addCaptionUpdater t d s)"
    by (auto simp: handleAddCaption_def t_def Let_def split: option.splits)
  have "fst (addCaptionUpdater t d s) = s"
    using r by (rule addCaptionUpdater_refused)
  then have "updateState (\<lambda>prev. fst (addCaptionUpdater t d prev)) False ed
               = updateState (\<lambda>s. s) False ed"
    using s by (intro updateState_cong_current) simp_all
  then show ?thesis
    by (simp add: handleAddCaption_def t_def Let_def)
qed

lemma addCaption_refused_state:
  "cursor_valid ed \<Longrightarrow> snd (handleAddCaption vt d ed) \<Longrightarrow>
     current_captions (fst (handleAddCaption vt d ed)) = current_captions ed
     \<and> current_styles (fst (handleAddCaption vt d ed)) = current_styles ed
     \<and> length (history (fst (handleAddCaption vt d ed))) = historyIndex ed + 2
     \<and> historyIndex (fst (handleAddCaption vt d ed)) = historyIndex ed + 1"
proof -
  assume v: "cursor_valid ed" and r: "snd (handleAddCaption vt d ed)"
  have e: "fst (handleAddCaption vt d ed) = updateState (\<lambda>s. s) False ed"
    using r by (rule addCaption_refused_is_commit)
  have l: "length (history (updateState (\<lambda>s. s) False ed)) = historyIndex ed + 2"
    using updateState_commit_valid [OF v, of "\<lambda>s. s"] v by (simp add: cursor_valid_def)
  show ?thesis
    unfolding e
    using current_after_commit [OF v, of "\<lambda>s. s"] updateState_commit_valid [OF v, of "\<lambda>s. s"]
      current_captions_valid [OF v] current_styles_valid [OF v] l
    by simp
qed

text \<open>
  C9 at a concrete refusal. One caption spans \<open>[0, 5]\<close> of a 5 second
  video and the playhead is at 4.95: the new caption is clamped to
  \<open>[5, 5]\<close>, the alert is raised, and the history nevertheless receives a
  second, equal snapshot and the cursor moves from 0 to 1.
\<close>

theorem handleAddCaption_refusal_commits:
  "snd (handleAddCaption (Some (495 / 100)) 5
          (initial_editor [\<lparr> cap_start = 0, cap_end = 5, cap_text = ''x'' \<rparr>]))
   \<and> fst (handleAddCaption (Some (495 / 100)) 5
          (initial_editor [\<lparr> cap_start = 0, cap_end = 5, cap_text = ''x'' \<rparr>]))
     = \<lparr> history =
           [\<lparr> captions = [\<lparr> cap_start = 0, cap_end = 5, cap_text = ''x'' \<rparr>],
              styles = DEFAULT_STYLES \<rparr>,
            \<lparr> captions = [\<lparr> cap_start = 0, cap_end = 5, cap_text = ''x'' \<rparr>],
              styles = DEFAULT_STYLES \<rparr>],
         historyIndex = 1,
         sortedCaptions = [\<lparr> cap_start = 0, cap_end = 5, cap_text = ''x'' \<rparr>] \<rparr>"
  by (simp add: handleAddCaption_def addCaptionUpdater_def updateState_def initial_editor_def
        currentState_def js_nth_def js_nth_pred_def Let_def)

section \<open>Timeline: proofs\<close>

text \<open>
  C7. A wheel event with ctrl or meta held, over a mounted scroll container,
  at a positive zoom level: the handler passes on a zoom clamped to
  \<open>[0.2, 5]\<close> and assigns
  \<open>newScrollLeft = timeAtCursor * (150 * newZoom) - mouseX\<close> with
  \<open>timeAtCursor = (scrollLeft + mouseX) / (150 * zoomLevel)\<close>, so the time
  under the pointer is the same before and after.
\<close>

theorem handleWheel_zoom_about_cursor:
  "0 < zoomLevel \<Longrightarrow> ctrlKey \<or> metaKey \<Longrightarrow>
     (\<exists>newZoom newScrollLeft.
        handleWheel ctrlKey metaKey (Some sc) clientX deltaY zoomLevel
          = Some (newZoom, newScrollLeft)
        \<and> 2 / 10 \<le> newZoom \<and> newZoom \<le> 5
        \<and> newZoom = max (2 / 10) (min 5 (zoomLevel - deltaY * (5 / 1000)))
        \<and> newScrollLeft =
             ((scrollLeft sc + (clientX - rect_left sc)) / (150 * zoomLevel)) * (150 * newZoom)
               - (clientX - rect_left sc)
        \<and> (newScrollLeft + (clientX - rect_left sc)) / (150 * newZoom)
             = (scrollLeft sc + (clientX - rect_left sc)) / (150 * zoomLevel))"
proof -
  assume z: "0 < zoomLevel" and k: "ctrlKey \<or> metaKey"
  define mouseX where "mouseX = clientX - rect_left sc"
  define t where "t = (scrollLeft sc + mouseX) / (150 * zoomLevel)"
  define newZoom where "newZoom = max (2 / 10) (min 5 (zoomLevel - deltaY * (5 / 1000)))"
  define newScrollLeft where "newScrollLeft = t * (150 * newZoom) - mouseX"
  have h: "handleWheel ctrlKey metaKey (Some sc) clientX deltaY zoomLevel
             = Some (newZoom, newScrollLeft)"
    using k by (simp add: handleWheel_def Let_def pixelsPerSecond_def PIXELS_PER_SECOND_BASE_def
          t_def mouseX_def newZoom_def newScrollLeft_def)
  have lo: "2 / 10 \<le> newZoom" and hi: "newZoom \<le> 5"
    unfolding newZoom_def by simp_all
  have pos: "150 * newZoom \<noteq> 0"
    using lo by simp
  have inv: "(newScrollLeft + mouseX) / (150 * newZoom) = t"
    unfolding newScrollLeft_def using pos by simp
  show ?thesis
    using h lo hi inv
    unfolding t_def mouseX_def newScrollLeft_def
    by (intro exI [of _ newZoom] exI [of _ "t * (150 * newZoom) - mouseX"])
       (simp add: newZoom_def t_def mouseX_def)
qed

theorem handleWheel_zoom_about_cursor_witness:
  "handleWheel True False (Some \<lparr> rect_left = 10, scrollLeft = 300 \<rparr>) 160 (-200) 1
     = Some (2, 750)
   \<and> (750 + (160 - 10)) / (150 * 2) = ((300 + (160 - 10)) / (150 * 1) :: real)"
proof -
  have h: "handleWheel True False (Some \<lparr> rect_left = 10, scrollLeft = 300 \<rparr>) 160 (-200) 1
     = Some (2, 750)"
    by (simp add: handleWheel_def Let_def pixelsPerSecond_def PIXELS_PER_SECOND_BASE_def)
  have z: "(0::real) < 1" by simp
  have k: "True \<or> False" by simp
  from handleWheel_zoom_about_cursor
         [OF z k, of "\<lparr> rect_left = 10, scrollLeft = 300 \<rparr>" 160 "-200"] h
  show ?thesis by simp
qed

text \<open>
  C1 at a concrete drag. Three captions \<open>[0, 1]\<close>, \<open>[1, 3]\<close>,
  \<open>[3.5, 5]\<close> of a 10 second video satisfy the invariant. The middle one
  is dragged in move mode 450 px to the right at zoom 1 (3 s), the playhead
  far away at 9 s, and released: the start stays at the proposed 4, the end
  is clamped to the next caption's start, and move mode has no
  minimum-duration step, so the drag commits \<open>start = 4\<close>,
  \<open>end = 3.5\<close>: a caption that ends before it starts and begins after the
  next one has begun.
\<close>

theorem drag_move_inverts_caption:
  "timeline_ok
     [\<lparr> cap_start = 0, cap_end = 1, cap_text = ''a'' \<rparr>,
      \<lparr> cap_start = 1, cap_end = 3, cap_text = ''b'' \<rparr>,
      \<lparr> cap_start = 35 / 10, cap_end = 5, cap_text = ''c'' \<rparr>]
   \<and> map_sum (\<lambda>err. err) current_captions
       (completed_drag
          (Some \<lparr> ds_index = 1, ds_mode = Move, ds_startX = 0,
                  originalStart = 1, originalEnd = 3 \<rparr>)
          10 1 9 [450]
          (initial_editor
             [\<lparr> cap_start = 0, cap_end = 1, cap_text = ''a'' \<rparr>,
              \<lparr> cap_start = 1, cap_end = 3, cap_text = ''b'' \<rparr>,
              \<lparr> cap_start = 35 / 10, cap_end = 5, cap_text = ''c'' \<rparr>]))
     = Inr [\<lparr> cap_start = 0, cap_end = 1, cap_text = ''a'' \<rparr>,
            \<lparr> cap_start = 4, cap_end = 35 / 10, cap_text = ''b'' \<rparr>,
            \<lparr> cap_start = 35 / 10, cap_end = 5, cap_text = ''c'' \<rparr>]
   \<and> \<not> timeline_ok
       [\<lparr> cap_start = 0, cap_end = 1, cap_text = ''a'' \<rparr>,
        \<lparr> cap_start = 4, cap_end = 35 / 10, cap_text = ''b'' \<rparr>,
        \<lparr> cap_start = 35 / 10, cap_end = 5, cap_text = ''c'' \<rparr>]"
proof -
  let ?cs = "[\<lparr> cap_start = 0, cap_end = 1, cap_text = ''a'' \<rparr>,
      \<lparr> cap_start = 1, cap_end = 3, cap_text = ''b'' \<rparr>,
      \<lparr> cap_start = 35 / 10, cap_end = 5, cap_text = ''c'' \<rparr>]"
  let ?bad = "[\<lparr> cap_start = 0, cap_end = 1, cap_text = ''a'' \<rparr>,
      \<lparr> cap_start = 4, cap_end = 35 / 10, cap_text = ''b'' \<rparr>,
      \<lparr> cap_start = 35 / 10, cap_end = 5, cap_text = ''c'' \<rparr>]"
  let ?ds = "\<lparr> ds_index = 1, ds_mode = Move, ds_startX = 0,
                  originalStart = 1, originalEnd = 3 \<rparr>"
  let ?moved = "drag_move (Some ?ds) 10 1 9 450 (initial_editor ?cs)"
  have ok: "timeline_ok ?cs"
    by (simp add: caption_ok_def)
  have cc: "current_captions (initial_editor ?cs) = ?cs"
    by (simp add: current_captions_def currentState_def js_nth_def initial_editor_def)
  have mm: "handleMouseMove (Some ?ds) 10 (pixelsPerSecond 1) 9 ?cs 450 = Some (1, 4, 35 / 10)"
    by (simp add: handleMouseMove_def Let_def pixelsPerSecond_def PIXELS_PER_SECOND_BASE_def
          SNAP_THRESHOLD_PX_def js_nth_def js_nth_pred_def)
  have mv: "?moved =
      \<lparr> history = [\<lparr> captions = ?bad, styles = DEFAULT_STYLES \<rparr>], historyIndex = 0,
        sortedCaptions = ?cs \<rparr>"
    unfolding drag_move_def cc mm
    by (simp add: handleCaptionTimeChange_def captionTimeUpdater_def updateState_def
          initial_editor_def js_nth_def Let_def)
  have up: "map_sum (\<lambda>err. err) current_captions (handleMouseUp (Some ?ds) ?moved) = Inr ?bad"
    unfolding mv
    by (simp add: handleMouseUp_def handleCaptionTimeChange_def captionTimeUpdater_def
          updateState_def current_captions_def currentState_def js_nth_def Let_def)
  have bad: "\<not> timeline_ok ?bad"
    by (simp add: caption_ok_def)
  show ?thesis
    using ok up bad by (simp add: completed_drag_def)
qed

subsection \<open>The order of the constraint steps\<close>

lemma handleMouseMove_steps:
  "duration \<noteq> 0 \<Longrightarrow> pps \<noteq> 0 \<Longrightarrow>
     handleMouseMove (Some ds) duration pps currentTime caps clientX =
       Some (ds_index ds,
             policy_in_code_order ds duration pps currentTime caps
               ((clientX - ds_startX ds) / pps))"
  by (cases "ds_mode ds"; cases "js_nth_pred caps (ds_index ds)";
      cases "js_nth caps (ds_index ds + 1)")
     (simp_all add: handleMouseMove_def policy_in_code_order_def move_boundary_step_def
        min_duration_step_def clamp_neighbours_step_def clamp_timeline_step_def snap_step_def
        near_playhead_def proposed_def Let_def case_prod_beta
        if_distrib [of fst] if_distrib [of snd]
        split del: if_split cong del: if_weak_cong)

lemma clamp_neighbours_within:
  "within_neighbours caps i (clamp_neighbours_step caps i se)"
  by (simp add: within_neighbours_def clamp_neighbours_step_def split: option.split)

lemma clamp_neighbours_fst_ge: "fst se \<le> fst (clamp_neighbours_step caps i se)"
  by (simp add: clamp_neighbours_step_def split: option.split)

lemma clamp_neighbours_snd_le: "snd (clamp_neighbours_step caps i se) \<le> snd se"
  by (simp add: clamp_neighbours_step_def split: option.split)

lemma clamp_neighbours_fst_keep:
  "within_neighbours caps i (a, b) \<Longrightarrow> fst se \<le> a \<Longrightarrow>
     fst (clamp_neighbours_step caps i se) \<le> a"
  by (simp add: within_neighbours_def clamp_neighbours_step_def split: option.splits)

lemma clamp_neighbours_snd_keep:
  "within_neighbours caps i (a, b) \<Longrightarrow> b \<le> snd se \<Longrightarrow>
     b \<le> snd (clamp_neighbours_step caps i se)"
  by (simp add: within_neighbours_def clamp_neighbours_step_def split: option.splits)

lemma within_neighbours_mono:
  "within_neighbours caps i (a, b) \<Longrightarrow> a \<le> a' \<Longrightarrow> b' \<le> b \<Longrightarrow>
     within_neighbours caps i (a', b')"
  by (auto simp: within_neighbours_def split: option.splits)

lemma policy_resize_end_within:
  assumes ok: "drag_origin_ok ds duration caps" and m: "ds_mode ds = ResizeEnd"
  shows "within_neighbours caps (ds_index ds)
           (policy_in_code_order ds duration pps currentTime caps deltaTime)"
proof -
  let ?i = "ds_index ds"
  define X where "X = clamp_timeline_step duration
                        (snap_step (ds_mode ds) pps currentTime (proposed ds deltaTime))"
  define Y where "Y = clamp_neighbours_step caps ?i X"
  have o: "0 \<le> originalStart ds" "originalEnd ds \<le> duration"
      "originalStart ds + 1 / 10 \<le> originalEnd ds"
      "within_neighbours caps ?i (originalStart ds, originalEnd ds)"
    using ok by (simp_all add: drag_origin_ok_def)
  have fx: "fst X = originalStart ds"
    using m o(1) by (simp add: X_def clamp_timeline_step_def snap_step_def proposed_def)
  have fy: "fst Y = originalStart ds"
  proof -
    have "fst Y \<le> originalStart ds"
      unfolding Y_def using o(4) fx by (intro clamp_neighbours_fst_keep) simp_all
    moreover have "originalStart ds \<le> fst Y"
      unfolding Y_def using clamp_neighbours_fst_ge [of X caps ?i] fx by simp
    ultimately show ?thesis by simp
  qed
  have wy: "within_neighbours caps ?i Y"
    unfolding Y_def by (rule clamp_neighbours_within)
  have res: "policy_in_code_order ds duration pps currentTime caps deltaTime
               = min_duration_step ResizeEnd Y"
    using m by (simp add: policy_in_code_order_def move_boundary_step_def X_def Y_def Let_def)
  show ?thesis
  proof (cases "fst Y + 1 / 10 \<ge> snd Y")
    case True
    then have e: "min_duration_step ResizeEnd Y = (originalStart ds, originalStart ds + 1 / 10)"
      using fy by (simp add: min_duration_step_def)
    show ?thesis
      unfolding res e using o(4) by (rule within_neighbours_mono) (use o(3) in simp_all)
  next
    case False
    then have "min_duration_step ResizeEnd Y = Y"
      by (simp add: min_duration_step_def)
    with wy res show ?thesis by simp
  qed
qed

lemma policy_resize_start_within:
  assumes ok: "drag_origin_ok ds duration caps" and m: "ds_mode ds = ResizeStart"
  shows "within_neighbours caps (ds_index ds)
           (policy_in_code_order ds duration pps currentTime caps deltaTime)"
proof -
  let ?i = "ds_index ds"
  define X where "X = clamp_timeline_step duration
                        (snap_step (ds_mode ds) pps currentTime (proposed ds deltaTime))"
  define Y where "Y = clamp_neighbours_step caps ?i X"
  have o: "0 \<le> originalStart ds" "originalEnd ds \<le> duration"
      "originalStart ds + 1 / 10 \<le> originalEnd ds"
      "within_neighbours caps ?i (originalStart ds, originalEnd ds)"
    using ok by (simp_all add: drag_origin_ok_def)
  have sx: "snd X = originalEnd ds"
    using m o(2) by (simp add: X_def clamp_timeline_step_def snap_step_def proposed_def)
  have sy: "snd Y = originalEnd ds"
  proof -
    have "originalEnd ds \<le> snd Y"
      unfolding Y_def using o(4) sx by (intro clamp_neighbours_snd_keep) simp_all
    moreover have "snd Y \<le> originalEnd ds"
      unfolding Y_def using clamp_neighbours_snd_le [of caps ?i X] sx by simp
    ultimately show ?thesis by simp
  qed
  have wy: "within_neighbours caps ?i Y"
    unfolding Y_def by (rule clamp_neighbours_within)
  have res: "policy_in_code_order ds duration pps currentTime caps deltaTime
               = min_duration_step ResizeStart Y"
    using m by (simp add: policy_in_code_order_def move_boundary_step_def X_def Y_def Let_def)
  show ?thesis
  proof (cases "fst Y + 1 / 10 \<ge> snd Y")
    case True
    then have e: "min_duration_step ResizeStart Y = (originalEnd ds - 1 / 10, originalEnd ds)"
      using sy by (simp add: min_duration_step_def)
    show ?thesis
      unfolding res e using o(4) by (rule within_neighbours_mono) (use o(3) in simp_all)
  next
    case False
    then have "min_duration_step ResizeStart Y = Y"
      by (simp add: min_duration_step_def)
    with wy res show ?thesis by simp
  qed
qed

lemma policy_move_within:
  assumes ok: "drag_origin_ok ds duration caps" and m: "ds_mode ds = Move"
  shows "within_neighbours caps (ds_index ds)
           (policy_in_code_order ds duration pps currentTime caps deltaTime)"
proof -
  let ?i = "ds_index ds"
  let ?d = "originalEnd ds - originalStart ds"
  define X where "X = clamp_timeline_step duration
                        (snap_step (ds_mode ds) pps currentTime (proposed ds deltaTime))"
  define Y where "Y = clamp_neighbours_step caps ?i X"
  have o: "0 \<le> originalStart ds" "originalEnd ds \<le> duration"
      "originalStart ds + 1 / 10 \<le> originalEnd ds"
      "within_neighbours caps ?i (originalStart ds, originalEnd ds)"
    using ok by (simp_all add: drag_origin_ok_def)
  have wy: "within_neighbours caps ?i (fst Y, snd Y)"
    unfolding Y_def using clamp_neighbours_within [of caps ?i X] by simp
  define e where "e = (if fst Y = 0 then fst Y + ?d else snd Y)"
  define s where "s = (if e = duration then e - ?d else fst Y)"
  have res: "policy_in_code_order ds duration pps currentTime caps deltaTime = (s, e)"
    using m by (simp add: policy_in_code_order_def move_boundary_step_def min_duration_step_def
          X_def Y_def Let_def s_def e_def)
  have we: "within_neighbours caps ?i (fst Y, e)"
  proof (cases "fst Y = 0")
    case True
    then have "e = ?d" by (simp add: e_def)
    then have "e \<le> originalEnd ds" using o(1) by simp
    moreover have "within_neighbours caps ?i (fst Y, originalEnd ds)"
      using wy o(4) by (auto simp: within_neighbours_def split: option.splits)
    ultimately show ?thesis
      by (auto intro: within_neighbours_mono)
  next
    case False
    then show ?thesis using wy by (simp add: e_def)
  qed
  have ws: "within_neighbours caps ?i (s, e)"
  proof (cases "e = duration")
    case True
    then have "s = duration - ?d" by (simp add: s_def)
    then have "originalStart ds \<le> s" using o(2) by simp
    moreover have "within_neighbours caps ?i (originalStart ds, e)"
      using we o(4) by (auto simp: within_neighbours_def split: option.splits)
    ultimately show ?thesis
      by (auto intro: within_neighbours_mono)
  next
    case False
    then show ?thesis using we by (simp add: s_def)
  qed
  show ?thesis unfolding res by (rule ws)
qed

lemma policy_code_order_within:
  "drag_origin_ok ds duration caps \<Longrightarrow>
     within_neighbours caps (ds_index ds)
       (policy_in_code_order ds duration pps currentTime caps deltaTime)"
  by (cases "ds_mode ds")
     (simp_all add: policy_move_within policy_resize_start_within policy_resize_end_within)

lemma nudge_within:
  assumes c: "js_nth caps i = Some c"
    and o: "0 \<le> cap_start c" "cap_end c \<le> V" "cap_start c < cap_end c"
    and w: "within_neighbours caps i (cap_start c, cap_end c)"
    and r: "handleKeyDown_nudge key shiftKey i V caps = Inr (Some (s, e))"
  shows "within_neighbours caps i (s, e) \<and> e - s = cap_end c - cap_start c
         \<and> 0 \<le> s \<and> e \<le> V"
proof -
  define n :: real where "n = (if shiftKey then 10 * (1 / 30) else 1 / 30)"
  have n: "0 < n" by (simp add: n_def)
  show ?thesis
  proof (cases "js_nth_pred caps i"; cases "js_nth caps (i + 1)")
    fix p q
    assume "js_nth_pred caps i = Some p" "js_nth caps (i + 1) = Some q"
    with c o w r n show ?thesis
      unfolding handleKeyDown_nudge_def within_neighbours_def Let_def n_def [symmetric]
      by (cases key) (auto split: if_splits)
  next
    fix p
    assume "js_nth_pred caps i = Some p" "js_nth caps (i + 1) = None"
    with c o w r n show ?thesis
      unfolding handleKeyDown_nudge_def within_neighbours_def Let_def n_def [symmetric]
      by (cases key) (auto split: if_splits)
  next
    fix q
    assume "js_nth_pred caps i = None" "js_nth caps (i + 1) = Some q"
    with c o w r n show ?thesis
      unfolding handleKeyDown_nudge_def within_neighbours_def Let_def n_def [symmetric]
      by (cases key) (auto split: if_splits)
  next
    assume "js_nth_pred caps i = None" "js_nth caps (i + 1) = None"
    with c o w r n show ?thesis
      unfolding handleKeyDown_nudge_def within_neighbours_def Let_def n_def [symmetric]
      by (cases key) (auto split: if_splits)
  qed
qed

text \<open>
  C6 (as the code has it). A pointer move applies the steps in the order
  snap, clamp to the timeline, clamp against the neighbours, minimum duration
  (resize modes), boundary rebuilding (move mode). As both clamps come after
  the snap, the committed pair respects the neighbour bounds whether or not a
  snap occurred, when the caption picked up at pointer-down lay on the
  timeline, was at least 0.1 s long and respected its neighbours. An arrow-key
  nudge has neither snap nor minimum-duration step: from a caption on the
  timeline that respects its neighbours, whatever it commits keeps the
  duration, stays on the timeline and respects the neighbour bounds.
\<close>

theorem drag_policy_order_and_bounds:
  "duration \<noteq> 0 \<Longrightarrow> pps \<noteq> 0 \<Longrightarrow>
     handleMouseMove (Some ds) duration pps currentTime caps clientX =
       Some (ds_index ds,
             policy_in_code_order ds duration pps currentTime caps
               ((clientX - ds_startX ds) / pps))
     \<and> (drag_origin_ok ds duration caps \<longrightarrow>
          within_neighbours caps (ds_index ds)
            (policy_in_code_order ds duration pps currentTime caps
               ((clientX - ds_startX ds) / pps)))
     \<and> (js_nth caps i = Some c \<and> 0 \<le> cap_start c \<and> cap_end c \<le> V
          \<and> cap_start c < cap_end c \<and> within_neighbours caps i (cap_start c, cap_end c)
          \<and> handleKeyDown_nudge key shiftKey i V caps = Inr (Some (s, e)) \<longrightarrow>
          within_neighbours caps i (s, e) \<and> e - s = cap_end c - cap_start c
          \<and> 0 \<le> s \<and> e \<le> V)"
proof -
  assume d: "duration \<noteq> 0" and p: "pps \<noteq> 0"
  have a: "handleMouseMove (Some ds) duration pps currentTime caps clientX =
       Some (ds_index ds,
             policy_in_code_order ds duration pps currentTime caps
               ((clientX - ds_startX ds) / pps))"
    using d p by (rule handleMouseMove_steps)
  have b: "drag_origin_ok ds duration caps \<longrightarrow>
          within_neighbours caps (ds_index ds)
            (policy_in_code_order ds duration pps currentTime caps
               ((clientX - ds_startX ds) / pps))"
    by (simp add: policy_code_order_within)
  have c: "js_nth caps i = Some c \<and> 0 \<le> cap_start c \<and> cap_end c \<le> V
          \<and> cap_start c < cap_end c \<and> within_neighbours caps i (cap_start c, cap_end c)
          \<and> handleKeyDown_nudge key shiftKey i V caps = Inr (Some (s, e)) \<longrightarrow>
          within_neighbours caps i (s, e) \<and> e - s = cap_end c - cap_start c
          \<and> 0 \<le> s \<and> e \<le> V"
    using nudge_within [of caps i c V key shiftKey s e] by blast
  from a b c show ?thesis by blast
qed

text \<open>
  C6 as stated fails: the end of \<open>[1, 2]\<close> is dragged to 3.03 with the
  playhead at 3.02 and the next caption starting at 3. The code snaps to
  3.02 and then clamps to 3; the steps in the order the spec states clamp to
  3 and then snap to 3.02, past the neighbour.
\<close>

theorem policy_order_counterexample:
  "handleMouseMove
     (Some \<lparr> ds_index = 0, ds_mode = ResizeEnd, ds_startX = 0,
             originalStart = 1, originalEnd = 2 \<rparr>)
     10 150 (302 / 100)
     [\<lparr> cap_start = 1, cap_end = 2, cap_text = ''a'' \<rparr>,
      \<lparr> cap_start = 3, cap_end = 4, cap_text = ''b'' \<rparr>]
     (1545 / 10)
     = Some (0, 1, 3)
   \<and> policy_in_spec_order
       \<lparr> ds_index = 0, ds_mode = ResizeEnd, ds_startX = 0, originalStart = 1, originalEnd = 2 \<rparr>
       10 150 (302 / 100)
       [\<lparr> cap_start = 1, cap_end = 2, cap_text = ''a'' \<rparr>,
        \<lparr> cap_start = 3, cap_end = 4, cap_text = ''b'' \<rparr>]
       ((1545 / 10 - 0) / 150)
     = (1, 302 / 100)"
  by (simp add: handleMouseMove_def policy_in_spec_order_def move_boundary_step_def
        min_duration_step_def clamp_neighbours_step_def clamp_timeline_step_def snap_step_def
        near_playhead_def proposed_def Let_def SNAP_THRESHOLD_PX_def js_nth_def js_nth_pred_def)

theorem drag_policy_order_and_bounds_witness:
  "handleMouseMove
     (Some \<lparr> ds_index = 0, ds_mode = ResizeEnd, ds_startX = 0,
             originalStart = 1, originalEnd = 2 \<rparr>)
     10 150 (202 / 100)
     [\<lparr> cap_start = 1, cap_end = 2, cap_text = ''a'' \<rparr>,
      \<lparr> cap_start = 201 / 100, cap_end = 4, cap_text = ''b'' \<rparr>]
     (45 / 10)
     = Some (0, 1, 201 / 100)
   \<and> within_neighbours
       [\<lparr> cap_start = 1, cap_end = 2, cap_text = ''a'' \<rparr>,
        \<lparr> cap_start = 201 / 100, cap_end = 4, cap_text = ''b'' \<rparr>]
       0 (1, 201 / 100)
   \<and> handleKeyDown_nudge ArrowRight False 0 10
       [\<lparr> cap_start = 1, cap_end = 2, cap_text = ''a'' \<rparr>,
        \<lparr> cap_start = 201 / 100, cap_end = 4, cap_text = ''b'' \<rparr>]
     = Inr (Some (101 / 100, 201 / 100))
   \<and> within_neighbours
       [\<lparr> cap_start = 1, cap_end = 2, cap_text = ''a'' \<rparr>,
        \<lparr> cap_start = 201 / 100, cap_end = 4, cap_text = ''b'' \<rparr>]
       0 (101 / 100, 201 / 100)"
proof -
  let ?a = "\<lparr> cap_start = 1, cap_end = 2, cap_text = ''a'' \<rparr>"
  let ?cs = "[?a, \<lparr> cap_start = 201 / 100, cap_end = 4, cap_text = ''b'' \<rparr>]"
  let ?ds = "\<lparr> ds_index = 0, ds_mode = ResizeEnd, ds_startX = 0,
               originalStart = 1, originalEnd = 2 \<rparr>"
  have d: "(10::real) \<noteq> 0" and p: "(150::real) \<noteq> 0"
    by simp_all
  have ok: "drag_origin_ok ?ds 10 ?cs"
    by (simp add: drag_origin_ok_def within_neighbours_def js_nth_def js_nth_pred_def)
  have mm: "handleMouseMove (Some ?ds) 10 150 (202 / 100) ?cs (45 / 10) = Some (0, 1, 201 / 100)"
    by (simp add: handleMouseMove_def Let_def SNAP_THRESHOLD_PX_def js_nth_def js_nth_pred_def)
  have c: "js_nth ?cs 0 = Some ?a"
    by (simp add: js_nth_def)
  have w: "within_neighbours ?cs 0 (cap_start ?a, cap_end ?a)"
    by (simp add: within_neighbours_def js_nth_def js_nth_pred_def)
  have n: "handleKeyDown_nudge ArrowRight False 0 10 ?cs = Inr (Some (101 / 100, 201 / 100))"
    by (simp add: handleKeyDown_nudge_def Let_def js_nth_def js_nth_pred_def)
  from drag_policy_order_and_bounds
         [OF d p, where ds = ?ds and caps = ?cs and currentTime = "202 / 100"
            and clientX = "45 / 10" and i = 0 and c = ?a and V = 10 and key = ArrowRight
            and shiftKey = False and s = "101 / 100" and e = "201 / 100"]
       ok mm c w n
  show ?thesis by simp
qed

section \<open>Export: proofs\<close>

lemma export_loop_map:
  "export_loop i n caps acc = acc @ map (frame_at caps) [i..n]"
proof (induction i n caps acc rule: export_loop.induct)
  case (1 i n caps acc)
  show ?case
  proof (cases "i \<le> n")
    case True
    have u: "[i..n] = i # [i + 1..n]"
      using True by (rule upto_rec1)
    show ?thesis
      using True "1.IH" [OF True refl refl]
      by (subst export_loop.simps) (simp add: u frame_at_def Let_def)
  next
    case False
    then show ?thesis
      by (subst export_loop.simps) simp
  qed
qed

text \<open>
  C5. With the video element, MediaRecorder and a canvas context at hand, the
  export of a video of duration \<open>d\<close> renders the frames
  \<open>i = 0, \<dots>, \<lfloor>d * 30\<rfloor>\<close>, both ends included, frame \<open>i\<close> at time
  \<open>i / 30\<close>, and draws caption text on frame \<open>i\<close> exactly when some
  caption has \<open>start \<le> i / 30 < end\<close>; a 2 second video gives 61 frames.
\<close>

theorem export_frames:
  "\<exists>fs. handleExport True True True d caps = Some fs
     \<and> fs = map (frame_at caps) [0..\<lfloor>d * 30\<rfloor>]
     \<and> length fs = nat (\<lfloor>d * 30\<rfloor> + 1)
     \<and> (\<forall>k < length fs.
           frame_time (fs ! k) = real k / 30
           \<and> ((frame_caption (fs ! k) \<noteq> None)
                = (\<exists>c \<in> set caps. cap_start c \<le> real k / 30 \<and> real k / 30 < cap_end c)))
     \<and> (d = 2 \<longrightarrow> length fs = 61)"
proof -
  let ?fs = "map (frame_at caps) [0..\<lfloor>d * 30\<rfloor>]"
  have h: "handleExport True True True d caps = Some ?fs"
    by (simp add: handleExport_def Let_def export_loop_map)
  have l: "length ?fs = nat (\<lfloor>d * 30\<rfloor> + 1)"
    by simp
  have k: "\<forall>k < length ?fs.
           frame_time (?fs ! k) = real k / 30
           \<and> ((frame_caption (?fs ! k) \<noteq> None)
                = (\<exists>c \<in> set caps. cap_start c \<le> real k / 30 \<and> real k / 30 < cap_end c))"
  proof (intro allI impI)
    fix k
    assume a: "k < length ?fs"
    then have b: "0 + int k \<le> \<lfloor>d * 30\<rfloor>"
      by simp
    have n: "[0..\<lfloor>d * 30\<rfloor>] ! k = int k"
      using nth_upto [OF b] by simp
    have f: "?fs ! k = frame_at caps (int k)"
      using a n by simp
    show "frame_time (?fs ! k) = real k / 30
           \<and> ((frame_caption (?fs ! k) \<noteq> None)
                = (\<exists>c \<in> set caps. cap_start c \<le> real k / 30 \<and> real k / 30 < cap_end c))"
      unfolding f by (auto simp: frame_at_def find_None_iff)
  qed
  have two: "d = 2 \<longrightarrow> length ?fs = 61"
    by simp
  from h l k two show ?thesis by blast
qed

theorem export_frames_witness:
  "length (the (handleExport True True True 2
       [\<lparr> cap_start = 5 / 10, cap_end = 15 / 10, cap_text = ''Hi'' \<rparr>])) = 61
   \<and> frame_caption (the (handleExport True True True 2
       [\<lparr> cap_start = 5 / 10, cap_end = 15 / 10, cap_text = ''Hi'' \<rparr>]) ! 15) \<noteq> None
   \<and> frame_caption (the (handleExport True True True 2
       [\<lparr> cap_start = 5 / 10, cap_end = 15 / 10, cap_text = ''Hi'' \<rparr>]) ! 14) = None
   \<and> frame_caption (the (handleExport True True True 2
       [\<lparr> cap_start = 5 / 10, cap_end = 15 / 10, cap_text = ''Hi'' \<rparr>]) ! 45) = None
   \<and> frame_time (the (handleExport True True True 2
       [\<lparr> cap_start = 5 / 10, cap_end = 15 / 10, cap_text = ''Hi'' \<rparr>]) ! 45) = 45 / 30"
proof -
  let ?cs = "[\<lparr> cap_start = 5 / 10, cap_end = 15 / 10, cap_text = ''Hi'' \<rparr>]"
  from export_frames [of 2 ?cs]
  obtain fs where h: "handleExport True True True 2 ?cs = Some fs"
    and l: "length fs = 61"
    and k: "\<forall>k < length fs.
           frame_time (fs ! k) = real k / 30
           \<and> ((frame_caption (fs ! k) \<noteq> None)
                = (\<exists>c \<in> set ?cs. cap_start c \<le> real k / 30 \<and> real k / 30 < cap_end c))"
    by auto
  have k15: "frame_caption (fs ! 15) \<noteq> None"
    using k [rule_format, of 15] l by simp
  have k14: "frame_caption (fs ! 14) = None"
    using k [rule_format, of 14] l by simp
  have k45: "frame_caption (fs ! 45) = None" "frame_time (fs ! 45) = 45 / 30"
    using k [rule_format, of 45] l by simp_all
  show ?thesis
    unfolding h using l k15 k14 k45 by simp
qed

section \<open>SRT export: proofs\<close>

text \<open>
  Whatever time it is given, \<open>formatSRTTime\<close> writes \<open>000\<close> for the
  milliseconds: \<open>setSeconds\<close> has cut the fraction off.
\<close>

lemma digit_char_in: "digit_char n \<in> set ''0123456789''"
proof -
  have "n mod 10 < length ''0123456789''" by simp
  then show ?thesis
    unfolding digit_char_def by (rule nth_mem)
qed

lemma show_nat_digits: "set (show_nat n) \<subseteq> set ''0123456789''"
proof (induction n rule: show_nat.induct)
  case (1 n)
  show ?case
  proof (cases "n < 10")
    case True
    then show ?thesis
      using digit_char_in [of n] by (subst show_nat.simps) simp
  next
    case False
    then show ?thesis
      using "1.IH" digit_char_in [of n] by (subst show_nat.simps) simp
  qed
qed

lemma pad2_no_dot: "CHR ''.'' \<notin> set (pad2 n)"
  using show_nat_digits [of n] by (auto simp: pad2_def)

lemma replace_first_append:
  "a \<notin> set xs \<Longrightarrow> replace_first a b (xs @ a # ys) = xs @ b # ys"
  by (induction xs) auto

lemma formatSRTTime_whole_seconds:
  "formatSRTTime x = Some s \<Longrightarrow> \<exists>hms. s = hms @ '',000''"
proof -
  assume a: "formatSRTTime x = Some s"
  define k where "k = ToIntegerOrInfinity x"
  define hms where "hms = pad2 (nat ((k * 1000 div 3600000) mod 24)) @ '':''
              @ pad2 (nat ((k * 1000 div 60000) mod 60)) @ '':''
              @ pad2 (nat ((k * 1000 div 1000) mod 60))"
  have nd: "CHR ''.'' \<notin> set hms"
    unfolding hms_def using pad2_no_dot by simp
  have ms: "pad3 (nat (k * 1000 mod 1000)) = ''000''"
    by (simp add: pad3_def show_nat.simps digit_char_def)
  from a have "s = replace_first (CHR ''.'') (CHR '','') (hms @ CHR ''.'' # ''000'')"
    unfolding formatSRTTime_def iso_time_of_day_def setSeconds_of_epoch_def
      k_def [symmetric] hms_def
    using ms by (auto split: if_splits)
  then have "s = hms @ '',000''"
    using replace_first_append [OF nd] by simp
  then show ?thesis by blast
qed

text \<open>
  C4 at its own scenario. The captions \<open>{0, 1, "A"}\<close> and
  \<open>{1.5, 2, "B"}\<close> are exported with 1-based indices, comma separated
  \<open>HH:MM:SS,mmm\<close> stamps and one blank line between the blocks, but the
  start of the second block is written \<open>00:00:01,000\<close>, not
  \<open>00:00:01,500\<close>: the content is not the string of the claim.
\<close>

theorem srt_export_drops_milliseconds:
  "handleDownloadSRT
     [\<lparr> cap_start = 0, cap_end = 1, cap_text = ''A'' \<rparr>,
      \<lparr> cap_start = 15 / 10, cap_end = 2, cap_text = ''B'' \<rparr>]
   = Some ''1\<newline>00:00:00,000 --> 00:00:01,000\<newline>A\<newline>\<newline>2\<newline>00:00:01,000 --> 00:00:02,000\<newline>B\<newline>''
   \<and> handleDownloadSRT
     [\<lparr> cap_start = 0, cap_end = 1, cap_text = ''A'' \<rparr>,
      \<lparr> cap_start = 15 / 10, cap_end = 2, cap_text = ''B'' \<rparr>]
   \<noteq> Some ''1\<newline>00:00:00,000 --> 00:00:01,000\<newline>A\<newline>\<newline>2\<newline>00:00:01,500 --> 00:00:02,000\<newline>B\<newline>''"
proof -
  have f0: "formatSRTTime 0 = Some ''00:00:00,000''"
    by (simp add: formatSRTTime_def setSeconds_of_epoch_def ToIntegerOrInfinity_def
          iso_time_of_day_def pad2_def pad3_def show_nat.simps digit_char_def)
  have f1: "formatSRTTime 1 = Some ''00:00:01,000''"
    by (simp add: formatSRTTime_def setSeconds_of_epoch_def ToIntegerOrInfinity_def
          iso_time_of_day_def pad2_def pad3_def show_nat.simps digit_char_def)
  have f15: "formatSRTTime (3 / 2) = Some ''00:00:01,000''"
    by (simp add: formatSRTTime_def setSeconds_of_epoch_def ToIntegerOrInfinity_def
          iso_time_of_day_def pad2_def pad3_def show_nat.simps digit_char_def)
  have f2: "formatSRTTime 2 = Some ''00:00:02,000''"
    by (simp add: formatSRTTime_def setSeconds_of_epoch_def ToIntegerOrInfinity_def
          iso_time_of_day_def pad2_def pad3_def show_nat.simps digit_char_def)
  have u: "[0..<2] = [0, 1]"
    by (simp add: upt_rec)
  have r: "handleDownloadSRT
     [\<lparr> cap_start = 0, cap_end = 1, cap_text = ''A'' \<rparr>,
      \<lparr> cap_start = 15 / 10, cap_end = 2, cap_text = ''B'' \<rparr>]
   = Some ''1\<newline>00:00:00,000 --> 00:00:01,000\<newline>A\<newline>\<newline>2\<newline>00:00:01,000 --> 00:00:02,000\<newline>B\<newline>''"
    by (simp add: handleDownloadSRT_def srt_block_def f0 f1 f15 f2 u show_nat.simps
          digit_char_def)
  show ?thesis
    unfolding r by simp
qed

section \<open>Text layout: proofs\<close>

lemma js_split_nonempty: "js_split c s \<noteq> []"
  by (induction s) auto

lemma js_split_append:
  "js_split c (a @ c # b) = js_split c a @ js_split c b"
proof (induction a)
  case Nil
  show ?case by simp
next
  case (Cons x a)
  have ne: "js_split c a \<noteq> []"
    by (rule js_split_nonempty)
  show ?case
    using Cons.IH ne by (cases "x = c") simp_all
qed

lemma js_split_word: "c \<notin> set w \<Longrightarrow> js_split c w = [w]"
  by (induction w) auto

lemma js_split_words_free: "w \<in> set (js_split c s) \<Longrightarrow> c \<notin> set w"
proof (induction s arbitrary: w)
  case Nil
  then show ?case by simp
next
  case (Cons x s)
  have ne: "js_split c s \<noteq> []"
    by (rule js_split_nonempty)
  show ?case
  proof (cases "x = c")
    case True
    with Cons show ?thesis by auto
  next
    case False
    with Cons.prems have "w = x # hd (js_split c s) \<or> w \<in> set (tl (js_split c s))"
      by simp
    then show ?thesis
    proof
      assume "w = x # hd (js_split c s)"
      moreover have "c \<notin> set (hd (js_split c s))"
        using Cons.IH [of "hd (js_split c s)"] ne by simp
      ultimately show ?thesis using False by simp
    next
      assume "w \<in> set (tl (js_split c s))"
      then have "w \<in> set (js_split c s)"
        using ne by (metis list.set_sel(2))
      then show ?thesis by (rule Cons.IH)
    qed
  qed
qed

lemma js_split_join:
  "ls \<noteq> [] \<Longrightarrow> js_split c (js_join [c] ls) = concat (map (js_split c) ls)"
proof (induction "[c]" ls rule: js_join.induct)
  case 1
  then show ?case by simp
next
  case (2 x)
  show ?case by simp
next
  case (3 x y ys)
  then show ?case by (simp add: js_split_append)
qed

lemma wrap_words_Cons_empty:
  "wrap_words m mx (w # ws) [] = wrap_words m mx ws w"
  by (simp add: Let_def)

lemma wrap_words_Cons_break:
  "cur \<noteq> [] \<Longrightarrow> mx < m (cur @ CHR '' '' # w) \<Longrightarrow>
     wrap_words m mx (w # ws) cur = cur # wrap_words m mx ws w"
  by (simp add: Let_def)

lemma wrap_words_Cons_keep:
  "cur \<noteq> [] \<Longrightarrow> \<not> mx < m (cur @ CHR '' '' # w) \<Longrightarrow>
     wrap_words m mx (w # ws) cur = wrap_words m mx ws (cur @ CHR '' '' # w)"
  by (simp add: Let_def)

declare wrap_words.simps(2) [simp del]

lemma wrap_words_nonempty: "wrap_words m mx ws cur \<noteq> []"
proof (induction ws arbitrary: cur)
  case Nil
  show ?case by simp
next
  case (Cons w ws)
  consider (empty) "cur = []"
    | (break) "cur \<noteq> []" "mx < m (cur @ CHR '' '' # w)"
    | (keep) "cur \<noteq> []" "\<not> mx < m (cur @ CHR '' '' # w)"
    by blast
  then show ?case
  proof cases
    case empty
    then show ?thesis using Cons.IH by (simp add: wrap_words_Cons_empty)
  next
    case break
    then show ?thesis by (simp add: wrap_words_Cons_break)
  next
    case keep
    then show ?thesis using Cons.IH by (simp add: wrap_words_Cons_keep)
  qed
qed

lemma wrap_words_first_word:
  "cur \<noteq> [] \<Longrightarrow>
     hd (js_split (CHR '' '') (hd (wrap_words m mx ws cur))) = hd (js_split (CHR '' '') cur)"
proof (induction ws arbitrary: cur)
  case Nil
  show ?case by simp
next
  case (Cons w ws)
  let ?t = "cur @ CHR '' '' # w"
  show ?case
  proof (cases "mx < m ?t")
    case True
    with Cons.prems show ?thesis by (simp add: wrap_words_Cons_break)
  next
    case False
    have "hd (js_split (CHR '' '') (hd (wrap_words m mx ws ?t))) = hd (js_split (CHR '' '') ?t)"
      by (rule Cons.IH) simp
    also have "\<dots> = hd (js_split (CHR '' '') cur)"
      using js_split_nonempty [of "CHR '' ''" cur] by (simp add: js_split_append)
    finally show ?thesis
      using False Cons.prems by (simp add: wrap_words_Cons_keep)
  qed
qed

lemma hd_concat_split:
  "ls \<noteq> [] \<Longrightarrow> concat (map (js_split c) ls) \<noteq> []
     \<and> hd (concat (map (js_split c) ls)) = hd (js_split c (hd ls))"
  using js_split_nonempty [of c "hd ls"] by (cases ls) simp_all

lemma next_word_does_not_fit:
  assumes mono: "\<And>l x. CHR '' '' \<notin> set x \<Longrightarrow> m (l @ [CHR '' '']) \<le> m (l @ CHR '' '' # x)"
    and w: "CHR '' '' \<notin> set w"
    and big: "mx < m (cur @ CHR '' '' # w)"
  shows "mx < m (cur @ CHR '' '' # hd (js_split (CHR '' '') (hd (wrap_words m mx ws w))))"
proof (cases "w = []")
  case True
  let ?r = "hd (js_split (CHR '' '') (hd (wrap_words m mx ws w)))"
  have "?r \<in> set (js_split (CHR '' '') (hd (wrap_words m mx ws w)))"
    using js_split_nonempty by (intro hd_in_set)
  then have "CHR '' '' \<notin> set ?r"
    by (rule js_split_words_free)
  then have "m (cur @ [CHR '' '']) \<le> m (cur @ CHR '' '' # ?r)"
    by (rule mono)
  with big True show ?thesis by simp
next
  case False
  then have "hd (js_split (CHR '' '') (hd (wrap_words m mx ws w))) = hd (js_split (CHR '' '') w)"
    by (rule wrap_words_first_word)
  with w big show ?thesis by (simp add: js_split_word)
qed

lemma wrap_words_replay:
  assumes mono: "\<And>l x. CHR '' '' \<notin> set x \<Longrightarrow> m (l @ [CHR '' '']) \<le> m (l @ CHR '' '' # x)"
    and free: "\<forall>w \<in> set ws. CHR '' '' \<notin> set w"
    and replay: "\<And>rest. wrap_words m mx (js_split (CHR '' '') cur @ rest) [] = wrap_words m mx rest cur"
  shows "wrap_words m mx (concat (map (js_split (CHR '' '')) (wrap_words m mx ws cur))) []
           = wrap_words m mx ws cur"
  using free replay
proof (induction ws arbitrary: cur)
  case Nil
  show ?case using Nil.prems(2) [of "[]"] by simp
next
  case (Cons w ws)
  have wf: "CHR '' '' \<notin> set w" and wsf: "\<forall>w \<in> set ws. CHR '' '' \<notin> set w"
    using Cons.prems(1) by simp_all
  have replay_w: "\<And>rest. wrap_words m mx (js_split (CHR '' '') w @ rest) [] = wrap_words m mx rest w"
    using wf by (simp add: js_split_word wrap_words_Cons_empty)
  let ?t = "cur @ CHR '' '' # w"
  consider (empty) "cur = []"
    | (break) "cur \<noteq> []" "mx < m ?t"
    | (keep) "cur \<noteq> []" "\<not> mx < m ?t"
    by blast
  then show ?case
  proof cases
    case empty
    have "wrap_words m mx (w # ws) cur = wrap_words m mx ws w"
      using empty by (simp add: wrap_words_Cons_empty)
    then show ?thesis
      using Cons.IH [OF wsf replay_w] by simp
  next
    case break
    let ?ls = "wrap_words m mx ws w"
    let ?rs = "concat (map (js_split (CHR '' '')) ?ls)"
    have res: "wrap_words m mx (w # ws) cur = cur # ?ls"
      using break by (simp add: wrap_words_Cons_break)
    have ne: "?rs \<noteq> []" and h: "hd ?rs = hd (js_split (CHR '' '') (hd ?ls))"
      using hd_concat_split [OF wrap_words_nonempty, of "CHR '' ''" m mx ws w] by simp_all
    have big: "mx < m (cur @ CHR '' '' # hd ?rs)"
      unfolding h using mono wf break(2) by (rule next_word_does_not_fit)
    obtain r rs' where rs: "?rs = r # rs'"
      using ne by (cases ?rs) simp_all
    have big': "mx < m (cur @ CHR '' '' # r)"
      using big rs by simp
    have "wrap_words m mx (js_split (CHR '' '') cur @ ?rs) [] = wrap_words m mx ?rs cur"
      by (rule Cons.prems(2))
    also have "\<dots> = cur # wrap_words m mx rs' r"
      unfolding rs using break(1) big' by (rule wrap_words_Cons_break)
    also have "wrap_words m mx rs' r = wrap_words m mx ?rs []"
      unfolding rs by (simp add: wrap_words_Cons_empty)
    also have "\<dots> = ?ls"
      using wsf replay_w by (rule Cons.IH)
    finally show ?thesis
      unfolding res by simp
  next
    case keep
    have res: "wrap_words m mx (w # ws) cur = wrap_words m mx ws ?t"
      using keep by (simp add: wrap_words_Cons_keep)
    have replay_t: "\<And>rest. wrap_words m mx (js_split (CHR '' '') ?t @ rest) []
                      = wrap_words m mx rest ?t"
    proof -
      fix rest
      have "wrap_words m mx (js_split (CHR '' '') ?t @ rest) []
              = wrap_words m mx (js_split (CHR '' '') cur @ w # rest) []"
        using wf by (simp add: js_split_append js_split_word)
      also have "\<dots> = wrap_words m mx (w # rest) cur"
        by (rule Cons.prems(2))
      also have "\<dots> = wrap_words m mx rest ?t"
        using keep by (simp add: wrap_words_Cons_keep)
      finally show "wrap_words m mx (js_split (CHR '' '') ?t @ rest) []
                      = wrap_words m mx rest ?t" .
    qed
    show ?thesis
      unfolding res using wsf replay_t by (rule Cons.IH)
  qed
qed

lemma wrap_line_idempotent_gen:
  assumes mono: "\<And>l x. CHR '' '' \<notin> set x \<Longrightarrow> m (l @ [CHR '' '']) \<le> m (l @ CHR '' '' # x)"
  shows "wrap_line m mx (js_join '' '' (wrap_line m mx L)) = wrap_line m mx L"
proof -
  let ?ws = "js_split (CHR '' '') L"
  have free: "\<forall>w \<in> set ?ws. CHR '' '' \<notin> set w"
    using js_split_words_free by blast
  have replay: "\<And>rest. wrap_words m mx (js_split (CHR '' '') [] @ rest) [] = wrap_words m mx rest []"
    by (simp add: wrap_words_Cons_empty)
  have "js_split (CHR '' '') (js_join '' '' (wrap_words m mx ?ws []))
          = concat (map (js_split (CHR '' '')) (wrap_words m mx ?ws []))"
    using wrap_words_nonempty by (intro js_split_join)
  then show ?thesis
    unfolding wrap_line_def using wrap_words_replay [OF mono free replay] by simp
qed

lemma words_width_mono:
  assumes nn: "\<forall>w. 0 \<le> ww w" and e: "ww [] = 0" and x: "CHR '' '' \<notin> set x"
  shows "words_width ww sw (l @ [CHR '' '']) \<le> words_width ww sw (l @ CHR '' '' # x)"
proof -
  have a: "js_split (CHR '' '') (l @ [CHR '' '']) = js_split (CHR '' '') l @ [[]]"
    using js_split_append [of "CHR '' ''" l "[]"] by simp
  have b: "js_split (CHR '' '') (l @ CHR '' '' # x) = js_split (CHR '' '') l @ [x]"
    using x by (simp add: js_split_append js_split_word)
  show ?thesis
    unfolding words_width_def a b using nn e by simp
qed

lemma wrap_words_keeps_words:
  "\<forall>w \<in> set ws. CHR '' '' \<notin> set w \<Longrightarrow>
     filter (\<lambda>w. w \<noteq> []) (concat (map (js_split (CHR '' '')) (wrap_words m mx ws cur)))
       = filter (\<lambda>w. w \<noteq> []) (js_split (CHR '' '') cur @ ws)"
proof (induction ws arbitrary: cur)
  case Nil
  show ?case by simp
next
  case (Cons w ws)
  have wf: "CHR '' '' \<notin> set w" and wsf: "\<forall>w \<in> set ws. CHR '' '' \<notin> set w"
    using Cons.prems by simp_all
  let ?t = "cur @ CHR '' '' # w"
  consider (empty) "cur = []"
    | (break) "cur \<noteq> []" "mx < m ?t"
    | (keep) "cur \<noteq> []" "\<not> mx < m ?t"
    by blast
  then show ?case
  proof cases
    case empty
    then show ?thesis
      using Cons.IH [OF wsf, of w] wf by (simp add: wrap_words_Cons_empty js_split_word)
  next
    case break
    then show ?thesis
      using Cons.IH [OF wsf, of w] wf by (simp add: wrap_words_Cons_break js_split_word)
  next
    case keep
    then show ?thesis
      using Cons.IH [OF wsf, of ?t] wf
      by (simp add: wrap_words_Cons_keep js_split_word js_split_append)
  qed
qed

lemma wrap_words_lines_fit:
  "\<forall>w \<in> set ws. CHR '' '' \<notin> set w \<Longrightarrow> m cur \<le> mx \<or> CHR '' '' \<notin> set cur \<Longrightarrow>
     \<forall>l \<in> set (wrap_words m mx ws cur). m l \<le> mx \<or> CHR '' '' \<notin> set l"
proof (induction ws arbitrary: cur)
  case Nil
  then show ?case by simp
next
  case (Cons w ws)
  have wf: "CHR '' '' \<notin> set w" and wsf: "\<forall>w \<in> set ws. CHR '' '' \<notin> set w"
    using Cons.prems(1) by simp_all
  let ?t = "cur @ CHR '' '' # w"
  consider (empty) "cur = []"
    | (break) "cur \<noteq> []" "mx < m ?t"
    | (keep) "cur \<noteq> []" "\<not> mx < m ?t"
    by blast
  then show ?case
  proof cases
    case empty
    then show ?thesis
      using Cons.IH [OF wsf, of w] wf by (simp add: wrap_words_Cons_empty)
  next
    case break
    then show ?thesis
      using Cons.IH [OF wsf, of w] wf Cons.prems(2) by (simp add: wrap_words_Cons_break)
  next
    case keep
    have "m ?t \<le> mx \<or> CHR '' '' \<notin> set ?t"
      using keep(2) by simp
    then show ?thesis
      using Cons.IH [OF wsf, of ?t] keep by (simp add: wrap_words_Cons_keep)
  qed
qed

lemma wrap_words_greedy:
  assumes mono: "\<And>l x. CHR '' '' \<notin> set x \<Longrightarrow> m (l @ [CHR '' '']) \<le> m (l @ CHR '' '' # x)"
    and free: "\<forall>w \<in> set ws. CHR '' '' \<notin> set w"
  shows "\<forall>k. Suc k < length (wrap_words m mx ws cur) \<longrightarrow>
           wrap_words m mx ws cur ! k \<noteq> []
           \<and> mx < m (wrap_words m mx ws cur ! k
                       @ CHR '' '' # hd (js_split (CHR '' '') (wrap_words m mx ws cur ! Suc k)))"
  using free
proof (induction ws arbitrary: cur)
  case Nil
  show ?case by simp
next
  case (Cons w ws)
  have wf: "CHR '' '' \<notin> set w" and wsf: "\<forall>w \<in> set ws. CHR '' '' \<notin> set w"
    using Cons.prems by simp_all
  let ?t = "cur @ CHR '' '' # w"
  consider (empty) "cur = []"
    | (break) "cur \<noteq> []" "mx < m ?t"
    | (keep) "cur \<noteq> []" "\<not> mx < m ?t"
    by blast
  then show ?case
  proof cases
    case empty
    then show ?thesis
      using Cons.IH [OF wsf, of w] by (simp add: wrap_words_Cons_empty)
  next
    case keep
    then show ?thesis
      using Cons.IH [OF wsf, of ?t] by (simp add: wrap_words_Cons_keep)
  next
    case break
    let ?ls = "wrap_words m mx ws w"
    have res: "wrap_words m mx (w # ws) cur = cur # ?ls"
      using break by (simp add: wrap_words_Cons_break)
    have ne: "?ls \<noteq> []"
      by (rule wrap_words_nonempty)
    have h0: "?ls ! 0 = hd ?ls"
      using ne by (simp add: hd_conv_nth)
    have first: "mx < m (cur @ CHR '' '' # hd (js_split (CHR '' '') (?ls ! 0)))"
      unfolding h0 using mono wf break(2) by (rule next_word_does_not_fit)
    show ?thesis
      unfolding res
    proof (intro allI impI)
      fix k
      assume k: "Suc k < length (cur # ?ls)"
      show "(cur # ?ls) ! k \<noteq> []
            \<and> mx < m ((cur # ?ls) ! k @ CHR '' '' # hd (js_split (CHR '' '') ((cur # ?ls) ! Suc k)))"
      proof (cases k)
        case 0
        then show ?thesis using break(1) first by simp
      next
        case (Suc j)
        then have "Suc j < length ?ls" using k by simp
        then show ?thesis
          using Cons.IH [OF wsf, of w] Suc by simp
      qed
    qed
  qed
qed

text \<open>
  C8. With a line as wide as its words plus the spaces between them (word
  widths not negative, the empty word of width 0), the wrap of one explicit
  line \<open>L\<close> at width \<open>mx\<close>
  \<^item> is idempotent: wrapping its lines, joined again with spaces, gives the
    same lines;
  \<^item> never breaks inside a word: the lines carry the non-empty words of
    \<open>L\<close>, in order;
  \<^item> keeps a whole word on a line even when it is too wide: a line wider than
    \<open>mx\<close> has no space in it;
  \<^item> is greedy: every line but the last is non-empty, and the first word of
    the line after it would not have fitted on it;
  and \<open>drawText\<close> wraps each explicit line of the text on its own.
\<close>

theorem word_wrap_greedy_idempotent:
  "\<forall>w. 0 \<le> wordWidth w \<Longrightarrow> wordWidth [] = 0 \<Longrightarrow>
     wrap_line (words_width wordWidth spaceWidth) mx
         (js_join '' '' (wrap_line (words_width wordWidth spaceWidth) mx L))
       = wrap_line (words_width wordWidth spaceWidth) mx L
     \<and> filter (\<lambda>w. w \<noteq> [])
          (concat (map (js_split (CHR '' '')) (wrap_line (words_width wordWidth spaceWidth) mx L)))
         = filter (\<lambda>w. w \<noteq> []) (js_split (CHR '' '') L)
     \<and> (\<forall>l \<in> set (wrap_line (words_width wordWidth spaceWidth) mx L).
           words_width wordWidth spaceWidth l \<le> mx \<or> CHR '' '' \<notin> set l)
     \<and> (\<forall>k. Suc k < length (wrap_line (words_width wordWidth spaceWidth) mx L) \<longrightarrow>
           wrap_line (words_width wordWidth spaceWidth) mx L ! k \<noteq> []
           \<and> mx < words_width wordWidth spaceWidth
                    (wrap_line (words_width wordWidth spaceWidth) mx L ! k
                       @ CHR '' '' # hd (js_split (CHR '' '')
                           (wrap_line (words_width wordWidth spaceWidth) mx L ! Suc k))))
     \<and> drawText_allLines (words_width wordWidth spaceWidth) st videoWidth txt
         = concat (map (wrap_line (words_width wordWidth spaceWidth) ((maxWidth st / 100) * videoWidth))
                     (js_split (CHR 0x0A) txt))"
proof -
  assume nn: "\<forall>w. 0 \<le> wordWidth w" and e: "wordWidth [] = 0"
  let ?m = "words_width wordWidth spaceWidth"
  let ?ws = "js_split (CHR '' '') L"
  have mono: "\<And>l x. CHR '' '' \<notin> set x \<Longrightarrow> ?m (l @ [CHR '' '']) \<le> ?m (l @ CHR '' '' # x)"
    using nn e by (rule words_width_mono)
  have free: "\<forall>w \<in> set ?ws. CHR '' '' \<notin> set w"
    using js_split_words_free by blast
  have idem: "wrap_line ?m mx (js_join '' '' (wrap_line ?m mx L)) = wrap_line ?m mx L"
    using mono by (rule wrap_line_idempotent_gen)
  have kept: "filter (\<lambda>w. w \<noteq> []) (concat (map (js_split (CHR '' '')) (wrap_line ?m mx L)))
         = filter (\<lambda>w. w \<noteq> []) ?ws"
    unfolding wrap_line_def using wrap_words_keeps_words [OF free, of ?m mx "[]"] by simp
  have fit: "\<forall>l \<in> set (wrap_line ?m mx L). ?m l \<le> mx \<or> CHR '' '' \<notin> set l"
    unfolding wrap_line_def using free by (rule wrap_words_lines_fit) simp
  have greedy: "\<forall>k. Suc k < length (wrap_line ?m mx L) \<longrightarrow>
           wrap_line ?m mx L ! k \<noteq> []
           \<and> mx < ?m (wrap_line ?m mx L ! k
                       @ CHR '' '' # hd (js_split (CHR '' '') (wrap_line ?m mx L ! Suc k)))"
    unfolding wrap_line_def using mono free by (rule wrap_words_greedy)
  have per_line: "drawText_allLines ?m st videoWidth txt
         = concat (map (wrap_line ?m ((maxWidth st / 100) * videoWidth)) (js_split (CHR 0x0A) txt))"
    by (simp add: drawText_allLines_def Let_def)
  from idem kept fit greedy per_line show ?thesis by blast
qed


theorem word_wrap_greedy_idempotent_witness:
  "wrap_line (words_width (\<lambda>w. real (length w)) 1) 5 ''aa bb cccccc d''
     = [''aa bb'', ''cccccc'', ''d'']
   \<and> wrap_line (words_width (\<lambda>w. real (length w)) 1) 5
       (js_join '' '' [''aa bb'', ''cccccc'', ''d''])
     = [''aa bb'', ''cccccc'', ''d'']"
proof -
  have e: "wrap_line (words_width (\<lambda>w. real (length w)) 1) 5 ''aa bb cccccc d''
     = [''aa bb'', ''cccccc'', ''d'']"
    by code_simp
  have nn: "\<forall>w. 0 \<le> (\<lambda>w. real (length w)) w"
    by simp
  have z: "(\<lambda>w. real (length w)) [] = 0"
    by simp
  from word_wrap_greedy_idempotent [OF nn z, of 1 5 "''aa bb cccccc d''"] e
  show ?thesis by simp
qed

subsection \<open>Resizing keeps the minimum duration\<close>

text \<open>
  In the two resize modes the committed pair is at least 0.1 s long, whatever
  the input; only a move can commit less.
\<close>

lemma min_duration_step_floor:
  "mode \<noteq> Move \<Longrightarrow> fst (min_duration_step mode se) + 1 / 10 \<le> snd (min_duration_step mode se)"
  by (cases mode) (simp_all add: min_duration_step_def)

lemma resize_keeps_min_duration:
  "ds_mode ds \<noteq> Move \<Longrightarrow>
     fst (policy_in_code_order ds duration pps currentTime caps deltaTime) + 1 / 10
       \<le> snd (policy_in_code_order ds duration pps currentTime caps deltaTime)"
  using min_duration_step_floor [of "ds_mode ds"]
  by (simp add: policy_in_code_order_def move_boundary_step_def Let_def)

end
